theory Spec2Isabelle
  imports Complex_Main "HOL-Library.Word"
begin

unbundle bit_operations_syntax

section \<open>JavaScript numbers\<close>

text \<open>
  Every JavaScript number is an IEEE 754 binary64 value. A finite one is a rational, so the
  finite numbers are modelled by \<^typ>\<open>rat\<close> and every arithmetic operation of the source
  is the exact operation followed by \<open>fl\<close>, rounding to the nearest binary64 value with ties
  to the even significand. \<open>fl\<close> keeps 53 significant bits and has gradual underflow (the
  quantum never drops below \<open>2 powi - 1074\<close>). Overflow to \<open>Infinity\<close> is not part of
  \<open>fl\<close>: the functions below say themselves what they do when a divisor is zero.
\<close>

fun log2floor :: "nat \<Rightarrow> nat" where
  "log2floor n = (if n < 2 then 0 else Suc (log2floor (n div 2)))"

declare log2floor.simps [simp del]

definition ilog2 :: "rat \<Rightarrow> int" where
  \<comment> \<open>the binary exponent of a positive number: \<open>2 powi ilog2 x \<le> x < 2 powi (ilog2 x + 1)\<close>\<close>
  "ilog2 x = (if 1 \<le> x then int (log2floor (nat \<lfloor>x\<rfloor>))
              else let m = int (log2floor (nat \<lfloor>1 / x\<rfloor>))
                   in if 2 powi (- m) \<le> x then - m else - m - 1)"

definition round_even :: "rat \<Rightarrow> int" where
  "round_even x = (let f = \<lfloor>x\<rfloor>; r = x - of_int f
                   in if r < 1 / 2 then f
                      else if 1 / 2 < r then f + 1
                      else if even f then f else f + 1)"

definition fl :: "rat \<Rightarrow> rat" where
  "fl x = (if x = 0 then 0
           else let e = max (ilog2 \<bar>x\<bar>) (- 1022); q = 2 powi (e - 52)
                in of_int (round_even (x / q)) * q)"

definition fdiv :: "rat \<Rightarrow> rat \<Rightarrow> rat" where
  \<comment> \<open>\<open>a / b\<close> for a divisor that is not zero\<close>
  "fdiv a b = fl (a / b)"

definition fmul :: "rat \<Rightarrow> rat \<Rightarrow> rat" where
  "fmul a b = fl (a * b)"

definition fsub :: "rat \<Rightarrow> rat \<Rightarrow> rat" where
  "fsub a b = fl (a - b)"

definition Math_round :: "rat \<Rightarrow> int" where
  \<comment> \<open>\<open>Math.round\<close>: the nearest integer, a tie going up\<close>
  "Math_round x = \<lfloor>x + 1 / 2\<rfloor>"

section \<open>The image processor\<close>

subsection \<open>Aspect-ratio detection\<close>

record dimensions =
  width :: nat
  height :: nat

definition ASPECT_RATIO_DIMENSIONS :: "(string \<times> dimensions) list" where
  "ASPECT_RATIO_DIMENSIONS =
     [(''1:1'', \<lparr>width = 1024, height = 1024\<rparr>),
      (''16:9'', \<lparr>width = 1024, height = 576\<rparr>),
      (''9:16'', \<lparr>width = 576, height = 1024\<rparr>)]"

definition tolerance :: rat where
  "tolerance = fl (1 / 20)"

definition within_tolerance :: "rat \<Rightarrow> rat \<Rightarrow> bool" where
  \<comment> \<open>\<open>Math.abs(ratio - target) < tolerance\<close>\<close>
  "within_tolerance ratio target \<longleftrightarrow> \<bar>fsub ratio target\<bar> < tolerance"

definition detectAspectRatio :: "nat \<Rightarrow> nat \<Rightarrow> string" where
  \<comment> \<open>With \<open>height = 0\<close> the ratio is \<open>Infinity\<close> or \<open>NaN\<close> and every comparison is false.\<close>
  "detectAspectRatio w h =
     (if h = 0 then ''other''
      else let ratio = fdiv (of_nat w) (of_nat h)
           in if within_tolerance ratio 1 then ''1:1''
              else if within_tolerance ratio (fdiv 16 9) then ''16:9''
              else if within_tolerance ratio (fdiv 9 16) then ''9:16''
              else ''other'')"

definition classify_exact :: "nat \<Rightarrow> nat \<Rightarrow> string" where
  \<comment> \<open>the classification in the words of the specification, with the ratio, the distances
      and the tolerance of 5% taken exactly; \<open>detectAspectRatio\<close> is compared with it\<close>
  "classify_exact w h =
     (let ratio = rat_of_nat w / rat_of_nat h
      in if \<bar>ratio - 1\<bar> < 1 / 20 then ''1:1''
         else if \<bar>ratio - 16 / 9\<bar> < 1 / 20 then ''16:9''
         else if \<bar>ratio - 9 / 16\<bar> < 1 / 20 then ''9:16''
         else ''other'')"

subsection \<open>The image library\<close>

text \<open>
  The service hands every pixel operation to the sharp library and looks at nothing of an
  image but its width and height. A downloaded buffer is its bytes together with the
  dimensions sharp reads from them (\<open>None\<close> when sharp cannot decode the bytes); a JPEG
  that sharp encodes is identified with its pixel dimensions. A failing call of the library
  is \<open>Inl\<close> of the message of the error it throws.
\<close>

record image_buffer =
  bytes :: "nat list"
  pixels :: "dimensions option"

type_synonym jpeg = dimensions

definition sharp_metadata :: "image_buffer \<Rightarrow> string + dimensions" where
  "sharp_metadata b =
     (case pixels b of
        None \<Rightarrow> Inl ''Input buffer contains unsupported image format''
      | Some d \<Rightarrow> Inr d)"

definition sharp_resize :: "int \<Rightarrow> int \<Rightarrow> string + jpeg" where
  \<comment> \<open>\<open>resize(w, h)\<close> with both sides given: the result is exactly \<open>w\<close> by \<open>h\<close>, and
      a side that is not a positive integer is refused\<close>
  "sharp_resize w h =
     (if w \<le> 0 then Inl ''Expected positive integer for width''
      else if h \<le> 0 then Inl ''Expected positive integer for height''
      else Inr \<lparr>width = nat w, height = nat h\<rparr>)"

definition sharp_resize_inside :: "dimensions \<Rightarrow> nat \<Rightarrow> nat \<Rightarrow> jpeg" where
  \<comment> \<open>Modelled from the spec: \<open>resize(w, h, {fit: 'inside', withoutEnlargement: false})\<close>
      resizes the source so that it fits entirely within the target while preserving its own
      aspect ratio, permitting enlargement. The limiting side takes the target's length, the
      other side is scaled by the same factor, rounded to the nearest pixel and at least one
      pixel.\<close>
  "sharp_resize_inside d w h =
     (if w * height d \<le> h * width d
      then \<lparr>width = w, height = max 1 ((2 * (height d * w) + width d) div (2 * width d))\<rparr>
      else \<lparr>width = max 1 ((2 * (width d * h) + height d) div (2 * height d)), height = h\<rparr>)"

definition sharp_composite :: "nat \<Rightarrow> nat \<Rightarrow> jpeg \<Rightarrow> int \<Rightarrow> int \<Rightarrow> string + jpeg" where
  \<comment> \<open>a new canvas of the given size with one image composited onto it at an offset: the
      result has the size of the canvas, and an overlay larger than the canvas is refused\<close>
  "sharp_composite w h overlay t l =
     (if w < width overlay \<or> h < height overlay
      then Inl ''Image to composite must have same dimensions or smaller''
      else Inr \<lparr>width = w, height = h\<rparr>)"

subsection \<open>Padding onto a canvas\<close>

record layout =
  newWidth :: int
  newHeight :: int
  top_offset :: int
  left_offset :: int

definition padding_layout :: "nat \<Rightarrow> nat \<Rightarrow> nat \<Rightarrow> nat \<Rightarrow> layout" where
  \<comment> \<open>the arithmetic of \<open>createPaddedImage\<close>, for an original that has no side of length
      zero\<close>
  "padding_layout originalWidth originalHeight targetWidth targetHeight =
     (let scaleWidth = fdiv (of_nat targetWidth) (of_nat originalWidth);
          scaleHeight = fdiv (of_nat targetHeight) (of_nat originalHeight);
          scale = min scaleWidth scaleHeight;
          nw = Math_round (fmul (of_nat originalWidth) scale);
          nh = Math_round (fmul (of_nat originalHeight) scale)
      in \<lparr>newWidth = nw, newHeight = nh,
          top_offset = Math_round (fdiv (fsub (of_nat targetHeight) (of_int nh)) 2),
          left_offset = Math_round (fdiv (fsub (of_nat targetWidth) (of_int nw)) 2)\<rparr>)"

definition createPaddedImage :: "image_buffer \<Rightarrow> nat \<Rightarrow> nat \<Rightarrow> string + jpeg" where
  \<comment> \<open>An original with a side of length zero makes the scale \<open>Infinity\<close> and a new side
      \<open>0\<close> or \<open>NaN\<close>, which \<open>resize\<close> refuses. Whatever is thrown is caught and
      thrown again under the prefix of this function.\<close>
  "createPaddedImage imageBuffer targetWidth targetHeight =
     (case
        (case sharp_metadata imageBuffer of
           Inl e \<Rightarrow> Inl e
         | Inr metadata \<Rightarrow>
             if width metadata = 0 then Inl ''Expected positive integer for width''
             else if height metadata = 0 then Inl ''Expected positive integer for height''
             else
               let g = padding_layout (width metadata) (height metadata) targetWidth targetHeight
               in (case sharp_resize (newWidth g) (newHeight g) of
                     Inl e \<Rightarrow> Inl e
                   | Inr resizedImage \<Rightarrow>
                       sharp_composite targetWidth targetHeight resizedImage
                         (top_offset g) (left_offset g)))
      of
        Inl e \<Rightarrow> Inl (''Image processing failed: '' @ e)
      | Inr paddedImage \<Rightarrow> Inr paddedImage)"

subsection \<open>All three variants\<close>

definition sharp_fit_inside :: "image_buffer \<Rightarrow> nat \<Rightarrow> nat \<Rightarrow> string + jpeg" where
  "sharp_fit_inside b w h =
     (case sharp_metadata b of
        Inl e \<Rightarrow> Inl e
      | Inr d \<Rightarrow> Inr (sharp_resize_inside d w h))"

fun string_of_nat :: "nat \<Rightarrow> string" where
  "string_of_nat n =
     (if n < 10 then [''0123456789'' ! n]
      else string_of_nat (n div 10) @ [''0123456789'' ! (n mod 10)])"

declare string_of_nat.simps [simp del]

fun replace_first :: "char \<Rightarrow> char \<Rightarrow> string \<Rightarrow> string" where
  \<comment> \<open>\<open>s.replace(a, b)\<close> for one-character strings: only the first occurrence changes\<close>
  "replace_first a b [] = []"
| "replace_first a b (c # cs) = (if c = a then b # cs else c # replace_first a b cs)"

fun obj_set :: "(string \<times> 'v) list \<Rightarrow> string \<Rightarrow> 'v \<Rightarrow> (string \<times> 'v) list" where
  \<comment> \<open>\<open>obj[k] = v\<close> on an object whose keys are kept in insertion order\<close>
  "obj_set [] k v = [(k, v)]"
| "obj_set ((k', v') # kvs) k v = (if k' = k then (k, v) # kvs else (k', v') # obj_set kvs k v)"

record processed_image =
  buffer :: jpeg
  filename :: string

record results =
  originalAspectRatio :: string
  processedImages :: "(string \<times> processed_image) list"

definition variant_filename :: "string \<Rightarrow> string \<Rightarrow> nat \<Rightarrow> string" where
  "variant_filename characterId outputKey timestamp =
     ''characters/'' @ characterId @ ''/aspect-ratios/'' @ outputKey @ ''-''
       @ string_of_nat timestamp @ ''.jpg''"

definition process_ratio ::
  "image_buffer \<Rightarrow> string \<Rightarrow> string \<Rightarrow> nat \<Rightarrow> string \<times> dimensions
     \<Rightarrow> string + string \<times> processed_image" where
  \<comment> \<open>the body of the loop over \<open>ASPECT_RATIO_DIMENSIONS\<close>\<close>
  "process_ratio originalImageBuffer originalRatio characterId timestamp entry =
     (case entry of (ratioKey, dims) \<Rightarrow>
        let outputKey = replace_first CHR '':'' CHR ''x'' ratioKey
        in if originalRatio = ratioKey
           then (case sharp_fit_inside originalImageBuffer (width dims) (height dims) of
                   Inl e \<Rightarrow> Inl e
                 | Inr optimizedImage \<Rightarrow>
                     Inr (outputKey,
                          \<lparr>buffer = optimizedImage,
                           filename = variant_filename characterId outputKey timestamp\<rparr>))
           else (case createPaddedImage originalImageBuffer (width dims) (height dims) of
                   Inl e \<Rightarrow> Inl e
                 | Inr paddedImage \<Rightarrow>
                     Inr (outputKey,
                          \<lparr>buffer = paddedImage,
                           filename = variant_filename characterId outputKey timestamp\<rparr>)))"

fun process_entries ::
  "image_buffer \<Rightarrow> string \<Rightarrow> string \<Rightarrow> nat \<Rightarrow> (string \<times> dimensions) list
     \<Rightarrow> (string \<times> processed_image) list \<Rightarrow> string + (string \<times> processed_image) list" where
  "process_entries b r c t [] acc = Inr acc"
| "process_entries b r c t (entry # entries) acc =
     (case process_ratio b r c t entry of
        Inl e \<Rightarrow> Inl e
      | Inr (k, img) \<Rightarrow> process_entries b r c t entries (obj_set acc k img))"

definition processAllAspectRatios :: "image_buffer \<Rightarrow> string \<Rightarrow> nat \<Rightarrow> string + results" where
  \<comment> \<open>The third argument is the value of \<open>Date.now()\<close>, which the function reads once.\<close>
  "processAllAspectRatios originalImageBuffer characterId timestamp =
     (case sharp_metadata originalImageBuffer of
        Inl e \<Rightarrow> Inl e
      | Inr metadata \<Rightarrow>
          let originalRatio = detectAspectRatio (width metadata) (height metadata)
          in (case process_entries originalImageBuffer originalRatio characterId timestamp
                     ASPECT_RATIO_DIMENSIONS [] of
                Inl e \<Rightarrow> Inl e
              | Inr images \<Rightarrow>
                  Inr \<lparr>originalAspectRatio = originalRatio, processedImages = images\<rparr>))"

definition variant_sizes :: "string + results \<Rightarrow> (string \<times> dimensions) list option" where
  \<comment> \<open>what a run produced: the pixel size of every variant under its key\<close>
  "variant_sizes run =
     (case run of
        Inl e \<Rightarrow> None
      | Inr r \<Rightarrow> Some (map (\<lambda>(k, img). (k, buffer img)) (processedImages r)))"

definition variant_filenames :: "string + results \<Rightarrow> (string \<times> string) list option" where
  \<comment> \<open>what a run produced: the storage filename of every variant under its key\<close>
  "variant_filenames run =
     (case run of
        Inl e \<Rightarrow> None
      | Inr r \<Rightarrow> Some (map (\<lambda>(k, img). (k, filename img)) (processedImages r)))"

subsection \<open>Validation of a downloaded buffer\<close>

definition signatures :: "(string \<times> nat list) list" where
  "signatures =
     [(''jpeg'', [0xFF, 0xD8]),
      (''png'', [0x89, 0x50, 0x4E, 0x47]),
      (''webp'', [0x52, 0x49, 0x46, 0x46]),
      (''gif'', [0x47, 0x49, 0x46])]"

fun detect_format :: "(string \<times> nat list) list \<Rightarrow> nat list \<Rightarrow> string" where
  "detect_format [] bs = ''unknown''"
| "detect_format ((format, sig) # rest) bs =
     (if length sig \<le> length bs \<and> take (length sig) bs = sig then format
      else detect_format rest bs)"

definition validateImageBuffer :: "image_buffer \<Rightarrow> string + string \<times> nat" where
  \<comment> \<open>\<open>Inl\<close> is \<open>{valid: false, error}\<close> and \<open>Inr\<close> is \<open>{valid: true, format, size}\<close>. The
      argument is always a \<open>Buffer\<close>, so the first test of the source never fails.\<close>
  "validateImageBuffer imageBuffer =
     (if bytes imageBuffer = [] then Inl ''Image buffer is empty''
      else let detectedFormat = detect_format signatures (bytes imageBuffer)
           in if detectedFormat = ''unknown'' then Inl ''Unrecognized image format''
              else Inr (detectedFormat, length (bytes imageBuffer)))"

section \<open>Webhook security\<close>

subsection \<open>HMAC-SHA256\<close>

text \<open>
  \<open>crypto.createHmac('sha256', secret).update(payload, 'utf8').digest('hex')\<close> is the
  HMAC of RFC 2104 over the SHA-256 of FIPS 180-4, written in lower-case hexadecimal. A
  string is the list of the bytes of its UTF-8 encoding.
\<close>

type_synonym byte = "8 word"

type_synonym word32 = "32 word"

definition K256 :: "word32 list" where
  "K256 =
    [0x428A2F98, 0x71374491, 0xB5C0FBCF, 0xE9B5DBA5, 0x3956C25B, 0x59F111F1, 0x923F82A4, 0xAB1C5ED5,
     0xD807AA98, 0x12835B01, 0x243185BE, 0x550C7DC3, 0x72BE5D74, 0x80DEB1FE, 0x9BDC06A7, 0xC19BF174,
     0xE49B69C1, 0xEFBE4786, 0x0FC19DC6, 0x240CA1CC, 0x2DE92C6F, 0x4A7484AA, 0x5CB0A9DC, 0x76F988DA,
     0x983E5152, 0xA831C66D, 0xB00327C8, 0xBF597FC7, 0xC6E00BF3, 0xD5A79147, 0x06CA6351, 0x14292967,
     0x27B70A85, 0x2E1B2138, 0x4D2C6DFC, 0x53380D13, 0x650A7354, 0x766A0ABB, 0x81C2C92E, 0x92722C85,
     0xA2BFE8A1, 0xA81A664B, 0xC24B8B70, 0xC76C51A3, 0xD192E819, 0xD6990624, 0xF40E3585, 0x106AA070,
     0x19A4C116, 0x1E376C08, 0x2748774C, 0x34B0BCB5, 0x391C0CB3, 0x4ED8AA4A, 0x5B9CCA4F, 0x682E6FF3,
     0x748F82EE, 0x78A5636F, 0x84C87814, 0x8CC70208, 0x90BEFFFA, 0xA4506CEB, 0xBEF9A3F7, 0xC67178F2]"

definition H256 :: "word32 list" where
  "H256 = [0x6a09e667, 0xbb67ae85, 0x3c6ef372, 0xa54ff53a,
           0x510e527f, 0x9b05688c, 0x1f83d9ab, 0x5be0cd19]"

definition Ch :: "word32 \<Rightarrow> word32 \<Rightarrow> word32 \<Rightarrow> word32" where
  "Ch x y z = (x AND y) XOR (NOT x AND z)"

definition Maj :: "word32 \<Rightarrow> word32 \<Rightarrow> word32 \<Rightarrow> word32" where
  "Maj x y z = (x AND y) XOR (x AND z) XOR (y AND z)"

definition Sigma0 :: "word32 \<Rightarrow> word32" where
  "Sigma0 x = word_rotr 2 x XOR word_rotr 13 x XOR word_rotr 22 x"

definition Sigma1 :: "word32 \<Rightarrow> word32" where
  "Sigma1 x = word_rotr 6 x XOR word_rotr 11 x XOR word_rotr 25 x"

definition sigma0 :: "word32 \<Rightarrow> word32" where
  "sigma0 x = word_rotr 7 x XOR word_rotr 18 x XOR drop_bit 3 x"

definition sigma1 :: "word32 \<Rightarrow> word32" where
  "sigma1 x = word_rotr 17 x XOR word_rotr 19 x XOR drop_bit 10 x"

fun be_bytes :: "nat \<Rightarrow> nat \<Rightarrow> byte list" where
  "be_bytes 0 n = []"
| "be_bytes (Suc k) n = be_bytes k (n div 256) @ [of_nat (n mod 256)]"

definition sha256_pad :: "byte list \<Rightarrow> byte list" where
  "sha256_pad m =
     m @ [0x80] @ replicate ((119 - length m mod 64) mod 64) 0 @ be_bytes 8 (8 * length m)"

fun be_words :: "byte list \<Rightarrow> word32 list" where
  "be_words (a # b # c # d # rest) =
     (push_bit 24 (ucast a) OR push_bit 16 (ucast b) OR push_bit 8 (ucast c) OR ucast d)
       # be_words rest"
| "be_words _ = []"

fun schedule :: "nat \<Rightarrow> word32 list \<Rightarrow> word32 list" where
  "schedule 0 w = w"
| "schedule (Suc n) w =
     schedule n (w @ [sigma1 (w ! (length w - 2)) + w ! (length w - 7)
                      + sigma0 (w ! (length w - 15)) + w ! (length w - 16)])"

fun round256 :: "word32 list \<Rightarrow> word32 \<times> word32 \<Rightarrow> word32 list" where
  "round256 [a, b, c, d, e, f, g, h] (k, w) =
     (let t1 = h + Sigma1 e + Ch e f g + k + w;
          t2 = Sigma0 a + Maj a b c
      in [t1 + t2, a, b, c, d + t1, e, f, g])"
| "round256 s _ = s"

definition compress :: "word32 list \<Rightarrow> byte list \<Rightarrow> word32 list" where
  "compress s block =
     map2 (+) s (foldl round256 s (zip K256 (schedule 48 (be_words block))))"

fun blocks :: "nat \<Rightarrow> byte list \<Rightarrow> byte list list" where
  "blocks 0 m = []"
| "blocks (Suc n) m = take 64 m # blocks n (drop 64 m)"

definition word_bytes :: "word32 \<Rightarrow> byte list" where
  "word_bytes w = [ucast (drop_bit 24 w), ucast (drop_bit 16 w), ucast (drop_bit 8 w), ucast w]"

definition sha256 :: "byte list \<Rightarrow> byte list" where
  "sha256 m =
     (let p = sha256_pad m
      in concat (map word_bytes (foldl compress H256 (blocks (length p div 64) p))))"

definition hmac_sha256 :: "byte list \<Rightarrow> byte list \<Rightarrow> byte list" where
  "hmac_sha256 key msg =
     (let k = (if 64 < length key then sha256 key else key);
          k0 = k @ replicate (64 - length k) 0
      in sha256 (map (\<lambda>b. b XOR 0x5c) k0 @ sha256 (map (\<lambda>b. b XOR 0x36) k0 @ msg)))"

definition utf8 :: "string \<Rightarrow> byte list" where
  "utf8 s = map of_char s"

subsection \<open>Hexadecimal\<close>

definition hex_digit :: "nat \<Rightarrow> char" where
  "hex_digit n = ''0123456789abcdef'' ! n"

definition hex_encode :: "byte list \<Rightarrow> string" where
  "hex_encode bs = concat (map (\<lambda>b. [hex_digit (unat b div 16), hex_digit (unat b mod 16)]) bs)"

definition unhex :: "char \<Rightarrow> nat option" where
  "unhex c =
     (let n = (of_char c :: nat)
      in if 48 \<le> n \<and> n \<le> 57 then Some (n - 48)
         else if 97 \<le> n \<and> n \<le> 102 then Some (n - 87)
         else if 65 \<le> n \<and> n \<le> 70 then Some (n - 55)
         else None)"

fun hex_decode :: "string \<Rightarrow> byte list" where
  \<comment> \<open>\<open>Buffer.from(s, 'hex')\<close>: two digits make a byte; decoding stops, without an error,
      at the first pair that is not two hexadecimal digits, and a single last digit is
      dropped\<close>
  "hex_decode (a # b # rest) =
     (case (unhex a, unhex b) of
        (Some x, Some y) \<Rightarrow> of_nat (16 * x + y) # hex_decode rest
      | _ \<Rightarrow> [])"
| "hex_decode _ = []"

subsection \<open>Signatures\<close>

definition falsy :: "string option \<Rightarrow> bool" where
  \<comment> \<open>\<open>!s\<close> for a value that is a string, \<open>undefined\<close> or \<open>null\<close>\<close>
  "falsy s \<longleftrightarrow> s = None \<or> s = Some []"

definition strip_sha256_prefix :: "string \<Rightarrow> string" where
  \<comment> \<open>\<open>signature.replace(/^sha256=/, '')\<close>\<close>
  "strip_sha256_prefix s = (if take 7 s = ''sha256='' then drop 7 s else s)"

definition timingSafeEqual :: "byte list \<Rightarrow> byte list \<Rightarrow> string + bool" where
  "timingSafeEqual a b =
     (if length a \<noteq> length b then Inl ''Input buffers must have the same byte length''
      else Inr (a = b))"

definition generateWebhookSignature :: "string \<Rightarrow> string \<Rightarrow> string" where
  "generateWebhookSignature payload secret =
     ''sha256='' @ hex_encode (hmac_sha256 (utf8 secret) (utf8 payload))"

definition verifyWebhookSignature ::
  "string option \<Rightarrow> string option \<Rightarrow> string option \<Rightarrow> bool" where
  \<comment> \<open>The outer \<open>case\<close> is the \<open>catch\<close> of the function: whatever is thrown is answered
      with \<open>false\<close>.\<close>
  "verifyWebhookSignature payload signature secret =
     (case
        (case (payload, signature, secret) of
           (Some p, Some s, Some k) \<Rightarrow>
             if p = [] \<or> s = [] \<or> k = [] then Inr False
             else
               let cleanSignature = strip_sha256_prefix s;
                   expectedSignature = hex_encode (hmac_sha256 (utf8 k) (utf8 p))
               in timingSafeEqual (hex_decode cleanSignature) (hex_decode expectedSignature)
         | _ \<Rightarrow> Inr False)
      of
        Inl e \<Rightarrow> False
      | Inr b \<Rightarrow> b)"

subsection \<open>Headers, payload and responses\<close>

datatype request_body =
    StringBody string
  | BufferBody string
  | ObjectBody string
  | OtherBody

text \<open>
  \<open>BufferBody s\<close> is a buffer whose \<open>toString()\<close> is \<open>s\<close>, \<open>ObjectBody s\<close> an object whose
  \<open>JSON.stringify\<close> is \<open>s\<close>, and \<open>OtherBody\<close> any other value (\<open>undefined\<close>, \<open>null\<close>, a
  number).
\<close>

record request =
  http_method :: string
  content_type_header :: "string option"
  signature_header :: "string option"
  body :: request_body

record payload =
  characterId :: "string option"
  imageUrl :: "string option"
  timeout :: "nat option"

text \<open>
  What \<open>JSON.parse\<close> makes of a body: a syntax error with its message, \<open>null\<close>, a value
  without properties of its own (a number, a string, a boolean), or an object, of which the
  handler reads \<open>characterId\<close>, \<open>imageUrl\<close> and \<open>options.timeout\<close>.
\<close>

datatype json = JSyntaxError string | JNull | JPrimitive | JObject payload

record job_request =
  job_characterId :: string
  job_imageUrl :: string
  job_timeout :: "nat option"

record response_data =
  data_characterId :: string
  data_originalAspectRatio :: string
  data_aspectRatioUrls :: "(string \<times> string) list"
  data_originalDimensions :: dimensions
  data_processedCount :: nat

text \<open>
  A response is the HTTP status and the JSON body, without the time stamps that
  \<open>createErrorResponse\<close> and \<open>createSuccessResponse\<close> add: \<open>ErrorResponse error statusCode\<close>
  is \<open>{success: false, error, statusCode}\<close>, \<open>SuccessResponse data message\<close> is
  \<open>{success: true, message, data}\<close> and \<open>End\<close> is a response without a body.
\<close>

datatype reply = End | ErrorResponse string nat | SuccessResponse response_data string

record response =
  status :: nat
  json :: reply

fun str_includes :: "string \<Rightarrow> string \<Rightarrow> bool" where
  \<comment> \<open>\<open>s.includes(needle)\<close>\<close>
  "str_includes [] needle = (needle = [])"
| "str_includes (c # cs) needle = (take (length needle) (c # cs) = needle \<or> str_includes cs needle)"

fun join :: "string list \<Rightarrow> string" where
  \<comment> \<open>\<open>errors.join(', ')\<close>\<close>
  "join [] = []"
| "join [e] = e"
| "join (e # es) = e @ '', '' @ join es"

definition createErrorResponse :: "string \<Rightarrow> nat \<Rightarrow> reply" where
  "createErrorResponse message statusCode = ErrorResponse message statusCode"

definition createSuccessResponse :: "response_data \<Rightarrow> string \<Rightarrow> reply" where
  "createSuccessResponse d message = SuccessResponse d message"

definition validateWebhookHeaders :: "request \<Rightarrow> string list" where
  \<comment> \<open>the list \<open>errors\<close>; \<open>success\<close> is that it is empty\<close>
  "validateWebhookHeaders req =
     (if (case content_type_header req of
            None \<Rightarrow> True
          | Some ct \<Rightarrow> \<not> str_includes ct ''application/json'')
      then [''Missing or invalid Content-Type header''] else [])
     @ (if falsy (signature_header req) then [''Missing X-Webhook-Signature header''] else [])"

definition parseWebhookPayload :: "(string \<Rightarrow> json) \<Rightarrow> string \<Rightarrow> string + job_request" where
  \<comment> \<open>\<open>Inl\<close> is \<open>{success: false, error}\<close>. The first argument is \<open>JSON.parse\<close>.\<close>
  "parseWebhookPayload JSON_parse b =
     (if b = [] then Inl ''Empty request body''
      else case JSON_parse b of
             JSyntaxError e \<Rightarrow> Inl e
           | JNull \<Rightarrow> Inl ''Cannot read properties of null''
           | JPrimitive \<Rightarrow> Inl ''Missing characterId in payload''
           | JObject p \<Rightarrow>
               (case characterId p of
                  None \<Rightarrow> Inl ''Missing characterId in payload''
                | Some c \<Rightarrow>
                    if c = [] then Inl ''Missing characterId in payload''
                    else (case imageUrl p of
                            None \<Rightarrow> Inl ''Missing imageUrl in payload''
                          | Some u \<Rightarrow>
                              if u = [] then Inl ''Missing imageUrl in payload''
                              else Inr \<lparr>job_characterId = c, job_imageUrl = u,
                                        job_timeout = timeout p\<rparr>)))"

section \<open>The record store and the object store\<close>

text \<open>
  The environment of a request: the two secrets of the process, the clock, \<open>JSON.parse\<close>, and
  what the Supabase client and \<open>fetch\<close> answer. An answer of the client that carries an
  \<open>error\<close> is \<open>Some\<close> of its message; the client changes the database or the bucket
  exactly when it answers without one. The uploads of a request run side by side:
  \<open>upload_settled\<close> is the time at which the upload of a file settles, counted from the start
  of the uploads, and \<open>write_latency\<close> is the time that the update of the status takes in the
  \<open>catch\<close> of the handler.
\<close>

record stored_file =
  name :: string
  created_at :: nat

record env =
  WEBHOOK_SECRET :: "string option"
  supabase_configured :: bool
  JSON_parse :: "string \<Rightarrow> json"
  now :: nat
  update_status_error :: "string \<Rightarrow> string \<Rightarrow> string option \<Rightarrow> string option"
  select_error :: "string \<Rightarrow> string option"
  update_record_error :: "string \<Rightarrow> string option"
  upload_error :: "string \<Rightarrow> string option"
  public_url :: "string \<Rightarrow> string"
  upload_settled :: "string \<Rightarrow> nat"
  write_latency :: nat
  fetch_result :: "string \<Rightarrow> nat \<Rightarrow> string + image_buffer"
  list_result :: "string \<Rightarrow> string + stored_file list"
  remove_error :: "string list \<Rightarrow> string option"

text \<open>
  What a request does to the database and to the bucket, in the order in which it does it:
  a row update that sets \<open>aspect_ratio_status\<close> (and \<open>aspect_ratio_error\<close>, when a
  message is given), the row update that sets the three URLs, the original ratio and the
  status \<open>completed\<close>, a stored file, and the detached cleanup for a character, with the
  files that it removes from the bucket and the warnings that it logs.
\<close>

datatype event =
    StatusWritten string string "string option"
  | RecordWritten string "(string \<times> string) list" string
  | FileStored string
  | Cleanup string "string list \<times> string list"

text \<open>
  A step of the handler performs events and then yields a value, throws an error with a
  message, or returns a response from the handler.
\<close>

datatype 'a outcome = Value 'a | Throw string | Return response

type_synonym 'a step = "event list \<times> 'a outcome"

definition andThen :: "'a step \<Rightarrow> ('a \<Rightarrow> 'b step) \<Rightarrow> 'b step" where
  "andThen m f =
     (case m of
        (evs, Value a) \<Rightarrow> (case f a of (evs', r) \<Rightarrow> (evs @ evs', r))
      | (evs, Throw e) \<Rightarrow> (evs, Throw e)
      | (evs, Return r) \<Rightarrow> (evs, Return r))"

definition missing_configuration :: string where
  "missing_configuration = ''Missing Supabase environment variables''"

definition uploadImageToStorage :: "env \<Rightarrow> string \<Rightarrow> string step" where
  \<comment> \<open>yields \<open>publicUrl\<close>\<close>
  "uploadImageToStorage e fileName =
     (if \<not> supabase_configured e then ([], Throw missing_configuration)
      else case upload_error e fileName of
             Some m \<Rightarrow> ([], Throw (''Storage upload failed: '' @ m))
           | None \<Rightarrow> ([FileStored fileName], Value (public_url e fileName)))"

definition updateCharacterAspectRatios ::
  "env \<Rightarrow> string \<Rightarrow> (string \<times> string) list \<Rightarrow> string \<Rightarrow> unit step" where
  "updateCharacterAspectRatios e cid aspectRatioUrls originalRatio =
     (if \<not> supabase_configured e then ([], Throw missing_configuration)
      else case update_record_error e cid of
             Some m \<Rightarrow> ([], Throw (''Database update failed: '' @ m))
           | None \<Rightarrow> ([RecordWritten cid aspectRatioUrls originalRatio], Value ()))"

definition getCharacterById :: "env \<Rightarrow> string \<Rightarrow> unit step" where
  "getCharacterById e cid =
     (if \<not> supabase_configured e then ([], Throw missing_configuration)
      else case select_error e cid of
             Some m \<Rightarrow> ([], Throw (''Failed to get character: '' @ m))
           | None \<Rightarrow> ([], Value ()))"

definition updateAspectRatioStatus ::
  "env \<Rightarrow> string \<Rightarrow> string \<Rightarrow> string option \<Rightarrow> unit step" where
  "updateAspectRatioStatus e cid st errorMessage =
     (if \<not> supabase_configured e then ([], Throw missing_configuration)
      else case update_status_error e cid st errorMessage of
             Some m \<Rightarrow> ([], Throw (''Status update failed: '' @ m))
           | None \<Rightarrow>
               ([StatusWritten cid st (if falsy errorMessage then None else errorMessage)],
                Value ()))"

definition downloadImage :: "env \<Rightarrow> string \<Rightarrow> nat \<Rightarrow> image_buffer step" where
  "downloadImage e url ms =
     (case fetch_result e url ms of
        Inl m \<Rightarrow> ([], Throw m)
      | Inr b \<Rightarrow> ([], Value b))"

definition cleanupOldAspectRatioFiles :: "env \<Rightarrow> string \<Rightarrow> string list \<times> string list" where
  \<comment> \<open>The files it removes from the bucket and the warnings it logs. It never throws: the
      files are listed, sorted by creation time with the newest first, and all but the first
      three are removed.\<close>
  "cleanupOldAspectRatioFiles e cid =
     (if \<not> supabase_configured e then ([], [''Cleanup error''])
      else case list_result e (''characters/'' @ cid @ ''/aspect-ratios'') of
             Inl m \<Rightarrow> ([], [''Could not list files for cleanup: '' @ m])
           | Inr files \<Rightarrow>
               let filesToRemove =
                     map (\<lambda>f. ''characters/'' @ cid @ ''/aspect-ratios/'' @ name f)
                       (drop 3 (rev (sort_key created_at (rev files))))
               in if filesToRemove = [] then ([], [])
                  else (case remove_error e filesToRemove of
                          Some m \<Rightarrow> ([], [''Cleanup warning: '' @ m])
                        | None \<Rightarrow> (filesToRemove, [])))"

section \<open>The webhook endpoint\<close>

definition getImageMetadata :: "image_buffer \<Rightarrow> dimensions step" where
  "getImageMetadata b =
     (case sharp_metadata b of
        Inl m \<Rightarrow> ([], Throw m)
      | Inr d \<Rightarrow> ([], Value d))"

definition rawBody :: "request \<Rightarrow> string option" where
  \<comment> \<open>\<open>None\<close>: the body has no form the handler accepts\<close>
  "rawBody req =
     (case body req of
        StringBody s \<Rightarrow> Some s
      | BufferBody s \<Rightarrow> Some s
      | ObjectBody s \<Rightarrow> Some s
      | OtherBody \<Rightarrow> None)"

definition admit :: "env \<Rightarrow> request \<Rightarrow> response + job_request" where
  \<comment> \<open>the handler from the validation of the headers to the parsed payload; \<open>Inl\<close> is the
      response with which it returns\<close>
  "admit e req =
     (let errors = validateWebhookHeaders req
      in if errors \<noteq> []
         then Inl \<lparr>status = 400,
                   json = createErrorResponse (''Invalid headers: '' @ join errors) 400\<rparr>
         else case rawBody req of
                None \<Rightarrow>
                  Inl \<lparr>status = 400, json = createErrorResponse ''Invalid request body format'' 400\<rparr>
              | Some raw \<Rightarrow>
                  if falsy (WEBHOOK_SECRET e)
                  then Inl \<lparr>status = 500,
                            json = createErrorResponse ''Server configuration error'' 400\<rparr>
                  else if \<not> verifyWebhookSignature (Some raw) (signature_header req)
                              (WEBHOOK_SECRET e)
                  then Inl \<lparr>status = 401,
                            json = createErrorResponse ''Invalid webhook signature'' 400\<rparr>
                  else (case parseWebhookPayload (JSON_parse e) raw of
                          Inl m \<Rightarrow> Inl \<lparr>status = 400, json = createErrorResponse m 400\<rparr>
                        | Inr p \<Rightarrow> Inr p))"

definition acquire :: "env \<Rightarrow> job_request \<Rightarrow> (dimensions \<times> results) step" where
  \<comment> \<open>from the status \<open>processing\<close> to the three processed images\<close>
  "acquire e p =
     andThen (updateAspectRatioStatus e (job_characterId p) ''processing'' None) (\<lambda>_.
       case getCharacterById e (job_characterId p) of
         (evs, Throw m) \<Rightarrow>
           andThen (updateAspectRatioStatus e (job_characterId p) ''failed''
                      (Some ''Character not found'')) (\<lambda>_.
             ([], Return \<lparr>status = 404, json = createErrorResponse ''Character not found'' 400\<rparr>))
       | _ \<Rightarrow>
           andThen (downloadImage e (job_imageUrl p)
                      (case job_timeout p of None \<Rightarrow> 30000 | Some ms \<Rightarrow> if ms = 0 then 30000 else ms))
             (\<lambda>imageBuffer.
               case validateImageBuffer imageBuffer of
                 Inl err \<Rightarrow>
                   andThen (updateAspectRatioStatus e (job_characterId p) ''failed''
                              (Some (''Invalid image: '' @ err))) (\<lambda>_.
                     ([], Return \<lparr>status = 400,
                                  json = createErrorResponse (''Invalid image: '' @ err) 400\<rparr>))
               | Inr validation \<Rightarrow>
                   andThen (getImageMetadata imageBuffer) (\<lambda>metadata.
                     case processAllAspectRatios imageBuffer (job_characterId p) (now e) of
                       Inl m \<Rightarrow> ([], Throw m)
                     | Inr processingResult \<Rightarrow> ([], Value (metadata, processingResult)))))"

fun earliest :: "nat \<times> string \<Rightarrow> (nat \<times> string) list \<Rightarrow> nat \<times> string" where
  \<comment> \<open>the rejection that settles first, with its time\<close>
  "earliest (t, m) [] = (t, m)"
| "earliest (t, m) ((t', m') # rest) =
     (if t' < t then earliest (t', m') rest else earliest (t, m) rest)"

definition rejections :: "env \<Rightarrow> (string \<times> processed_image) list \<Rightarrow> (nat \<times> string) list" where
  "rejections e images =
     List.map_filter
       (\<lambda>(ratioKey, imageData).
          case snd (uploadImageToStorage e (filename imageData)) of
            Throw m \<Rightarrow> Some (upload_settled e (filename imageData), m)
          | _ \<Rightarrow> None) images"

definition settled_uploads ::
  "env \<Rightarrow> (string \<times> processed_image) list \<Rightarrow> (nat \<times> event list) list" where
  \<comment> \<open>The loop starts every upload, and the uploads run side by side: each with the time at
      which it settles, counted from the start, and with what it does to the bucket, in the
      order in which they settle.\<close>
  "settled_uploads e images =
     sort_key fst
       (map (\<lambda>(ratioKey, imageData).
               (upload_settled e (filename imageData),
                fst (uploadImageToStorage e (filename imageData)))) images)"

definition upload_all :: "env \<Rightarrow> (string \<times> processed_image) list \<Rightarrow> (string \<times> string) list step" where
  \<comment> \<open>\<open>Promise.all\<close> yields \<open>aspectRatioUrls\<close> when every upload is fulfilled. It throws
      the rejection that settles first, at the time of this rejection: only the uploads that
      have settled before it have then stored their file, the others are still running.\<close>
  "upload_all e images =
     (case rejections e images of
        [] \<Rightarrow>
          (concat (map snd (settled_uploads e images)),
           Value (map (\<lambda>(ratioKey, imageData). (ratioKey, public_url e (filename imageData))) images))
      | r # rs \<Rightarrow>
          (concat (map snd (filter (\<lambda>u. fst u < fst (earliest r rs)) (settled_uploads e images))),
           Throw (snd (earliest r rs))))"

definition in_flight ::
  "env \<Rightarrow> (string \<times> processed_image) list \<Rightarrow> (nat \<times> event list) list" where
  \<comment> \<open>the uploads that are still running when \<open>Promise.all\<close> throws, each with the time it
      still takes; nothing stops them\<close>
  "in_flight e images =
     (case rejections e images of
        [] \<Rightarrow> []
      | r # rs \<Rightarrow>
          map (\<lambda>(t, evs). (t - fst (earliest r rs), evs))
            (filter (\<lambda>u. fst (earliest r rs) \<le> fst u) (settled_uploads e images)))"

definition deliver :: "env \<Rightarrow> job_request \<Rightarrow> dimensions \<times> results \<Rightarrow> response step" where
  \<comment> \<open>from the uploads to the response of a successful request\<close>
  "deliver e p acquired =
     (case acquired of (metadata, processingResult) \<Rightarrow>
        andThen (upload_all e (processedImages processingResult)) (\<lambda>aspectRatioUrls.
          andThen (updateCharacterAspectRatios e (job_characterId p) aspectRatioUrls
                     (originalAspectRatio processingResult)) (\<lambda>_.
            ([Cleanup (job_characterId p) (cleanupOldAspectRatioFiles e (job_characterId p))],
             Value \<lparr>status = 200,
                    json = createSuccessResponse
                      \<lparr>data_characterId = job_characterId p,
                       data_originalAspectRatio = originalAspectRatio processingResult,
                       data_aspectRatioUrls = aspectRatioUrls,
                       data_originalDimensions = metadata,
                       data_processedCount = length (processedImages processingResult)\<rparr>
                      ''Aspect ratios processed successfully''\<rparr>))))"

definition status_for :: "string \<Rightarrow> nat" where
  \<comment> \<open>the status code that the \<open>catch\<close> of the handler reads from the message\<close>
  "status_for message =
     (if str_includes message ''not found'' \<or> str_includes message ''404'' then 404
      else if str_includes message ''timeout'' \<or> str_includes message ''TIMEOUT'' then 408
      else if str_includes message ''too large'' \<or> str_includes message ''limit'' then 413
      else if str_includes message ''invalid'' \<or> str_includes message ''malformed'' then 400
      else 500)"

definition uploads_in_flight :: "env \<Rightarrow> job_request \<Rightarrow> (nat \<times> event list) list" where
  \<comment> \<open>the uploads of the request that are still running when it throws: there are none
      unless the images were processed and an upload was rejected\<close>
  "uploads_in_flight e p =
     (case acquire e p of
        (evs, Value (metadata, processingResult)) \<Rightarrow> in_flight e (processedImages processingResult)
      | _ \<Rightarrow> [])"

definition handler :: "env \<Rightarrow> request \<Rightarrow> event list \<times> response" where
  \<comment> \<open>The last case is the \<open>catch\<close> of the handler. There the update of the status stands in
      a \<open>try\<close> of its own, so that only its events remain of it when it throws. An upload
      that is still running stores its file before this update when it takes less time than
      the update, and after it (and after the response) otherwise.\<close>
  "handler e req =
     (if http_method req = ''OPTIONS'' then ([], \<lparr>status = 200, json = End\<rparr>)
      else if http_method req \<noteq> ''POST''
      then ([], \<lparr>status = 405, json = createErrorResponse ''Method not allowed'' 405\<rparr>)
      else case admit e req of
             Inl r \<Rightarrow> ([], r)
           | Inr p \<Rightarrow>
               (case andThen (acquire e p) (deliver e p) of
                  (evs, Value r) \<Rightarrow> (evs, r)
                | (evs, Return r) \<Rightarrow> (evs, r)
                | (evs, Throw message) \<Rightarrow>
                    (evs
                     @ concat (map snd (filter (\<lambda>u. fst u < write_latency e) (uploads_in_flight e p)))
                     @ fst (updateAspectRatioStatus e (job_characterId p) ''failed'' (Some message))
                     @ concat (map snd (filter (\<lambda>u. write_latency e \<le> fst u) (uploads_in_flight e p))),
                     \<lparr>status = status_for message,
                      json = createErrorResponse (''Processing failed: '' @ message)
                               (status_for message)\<rparr>)))"

fun recorded :: "event list \<Rightarrow> (string \<times> string option) option" where
  \<comment> \<open>the status of the job in the database after the events, with the message written
      beside it; \<open>None\<close> when no event wrote a status\<close>
  "recorded [] = None"
| "recorded (ev # evs) =
     (case recorded evs of
        Some s \<Rightarrow> Some s
      | None \<Rightarrow>
          (case ev of
             StatusWritten cid st m \<Rightarrow> Some (st, m)
           | RecordWritten cid urls ratio \<Rightarrow> Some (''completed'', None)
           | _ \<Rightarrow> None))"



section \<open>Example inputs\<close>

definition hd_buffer :: image_buffer where
  \<comment> \<open>a JPEG of 1920 by 1080 pixels\<close>
  "hd_buffer = \<lparr>bytes = [255, 216], pixels = Some \<lparr>width = 1920, height = 1080\<rparr>\<rparr>"

definition near_square_buffer :: image_buffer where
  \<comment> \<open>a JPEG of 512 by 500 pixels\<close>
  "near_square_buffer = \<lparr>bytes = [255, 216], pixels = Some \<lparr>width = 512, height = 500\<rparr>\<rparr>"

definition example_body :: string where
  \<open>example_body = ''{"characterId":"c1","imageUrl":"https://x.io/a.jpg"}''\<close>

definition example_signature :: string where
  "example_signature =
     ''sha256=11f2361327f2774539f4226658a3d018b2df2fd9bbe3d1aedc31e5e5b7a7ae74''"

definition example_request :: request where
  "example_request =
     \<lparr>http_method = ''POST'', content_type_header = Some ''application/json'',
      signature_header = Some example_signature, body = StringBody example_body\<rparr>"

definition example_parse :: "string \<Rightarrow> json" where
  "example_parse s =
     (if s = example_body
      then JObject \<lparr>characterId = Some ''c1'', imageUrl = Some ''https://x.io/a.jpg'',
                    timeout = None\<rparr>
      else JSyntaxError ''Unexpected token'')"

definition example_env :: env where
  \<comment> \<open>every call of the client succeeds and the image is \<open>hd_buffer\<close>\<close>
  "example_env =
     \<lparr>WEBHOOK_SECRET = Some ''whsec'', supabase_configured = True,
      JSON_parse = example_parse, now = 1700000000000,
      update_status_error = (\<lambda>cid st m. None), select_error = (\<lambda>cid. None),
      update_record_error = (\<lambda>cid. None), upload_error = (\<lambda>f. None),
      public_url = (\<lambda>f. ''https://store.example/'' @ f), upload_settled = (\<lambda>f. 0),
      write_latency = 0,
      fetch_result = (\<lambda>url ms. Inr hd_buffer),
      list_result = (\<lambda>prefix. Inr []), remove_error = (\<lambda>fs. None)\<rparr>"

definition example_job :: job_request where
  "example_job = \<lparr>job_characterId = ''c1'', job_imageUrl = ''https://x.io/a.jpg'',
                   job_timeout = None\<rparr>"

definition example_variants :: "(string \<times> processed_image) list" where
  \<comment> \<open>the three variants of \<open>hd_buffer\<close> for the character \<open>c1\<close> at the time of \<open>example_env\<close>\<close>
  "example_variants =
     [(''1x1'', \<lparr>buffer = \<lparr>width = 1024, height = 1024\<rparr>,
                  filename = ''characters/c1/aspect-ratios/1x1-1700000000000.jpg''\<rparr>),
      (''16x9'', \<lparr>buffer = \<lparr>width = 1024, height = 576\<rparr>,
                   filename = ''characters/c1/aspect-ratios/16x9-1700000000000.jpg''\<rparr>),
      (''9x16'', \<lparr>buffer = \<lparr>width = 576, height = 1024\<rparr>,
                   filename = ''characters/c1/aspect-ratios/9x16-1700000000000.jpg''\<rparr>)]"

definition missing_character_env :: env where
  "missing_character_env = example_env\<lparr>select_error := (\<lambda>cid. Some ''no rows returned'')\<rparr>"


definition upload_fails_env :: env where
  \<comment> \<open>the upload of the second variant is rejected, after the first variant is stored and
      before the third is\<close>
  "upload_fails_env =
     example_env\<lparr>upload_error :=
       (\<lambda>f. if f = ''characters/c1/aspect-ratios/16x9-1700000000000.jpg''
            then Some ''The resource already exists'' else None),
       upload_settled :=
       (\<lambda>f. if f = ''characters/c1/aspect-ratios/1x1-1700000000000.jpg'' then 1
            else if f = ''characters/c1/aspect-ratios/16x9-1700000000000.jpg'' then 2
            else 3)\<rparr>"

definition upload_fails_status_lost_env :: env where
  "upload_fails_status_lost_env =
     upload_fails_env\<lparr>update_status_error :=
       (\<lambda>cid st m. if st = ''failed'' then Some ''connection refused'' else None)\<rparr>"


section \<open>Rounding to binary64\<close>

lemma log2floor_0: "log2floor 0 = 0"
  by (subst log2floor.simps) simp

lemma log2floor_1: "log2floor 1 = 0"
  by (subst log2floor.simps) simp

lemma log2floor_Suc0: "log2floor (Suc 0) = 0"
  by (subst log2floor.simps) simp

lemma log2floor_num:
  "log2floor (numeral k) =
     (if numeral k < (2::nat) then 0 else Suc (log2floor (numeral k div 2)))"
  by (rule log2floor.simps)

lemma floor_rat_numeral:
  "\<lfloor>numeral a / numeral b :: rat\<rfloor> = numeral a div numeral b"
  "\<lfloor>- (numeral a / numeral b) :: rat\<rfloor> = - numeral a div numeral b"
  "\<lfloor>1 / numeral b :: rat\<rfloor> = 1 div numeral b"
  "\<lfloor>- (1 / numeral b) :: rat\<rfloor> = - 1 div numeral b"
     apply (metis floor_divide_of_int_eq of_int_numeral)
    apply (metis divide_minus_left floor_divide_of_int_eq of_int_neg_numeral of_int_numeral)
   apply (metis floor_divide_of_int_eq of_int_1 of_int_numeral)
  apply (metis divide_minus_left floor_divide_of_int_eq of_int_1 of_int_minus of_int_numeral)
  done

lemmas fl_eval = fl_def ilog2_def round_even_def Let_def
  log2floor_0 log2floor_1 log2floor_Suc0 log2floor_num floor_rat_numeral

lemma log2floor_bounds:
  "0 < n \<Longrightarrow> 2 ^ log2floor n \<le> n \<and> n < 2 ^ Suc (log2floor n)"
proof (induction n rule: log2floor.induct)
  case (1 n)
  show ?case
  proof (cases "n < 2")
    case True
    with "1.prems" have "n = 1" by simp
    then show ?thesis by (simp add: log2floor_Suc0)
  next
    case False
    then have pos: "0 < n div 2" by simp
    from "1.IH" [OF False pos]
    have lo: "2 ^ log2floor (n div 2) \<le> n div 2"
      and hi: "n div 2 < 2 ^ Suc (log2floor (n div 2))" by simp_all
    have eq: "log2floor n = Suc (log2floor (n div 2))"
      using False by (subst log2floor.simps) simp
    from lo have "2 * 2 ^ log2floor (n div 2) \<le> n" by linarith
    moreover from hi have "n < 2 * 2 ^ Suc (log2floor (n div 2))" by linarith
    ultimately show ?thesis by (simp add: eq)
  qed
qed

lemma ilog2_bounds:
  assumes "0 < x"
  shows "2 powi ilog2 x \<le> x" and "x < 2 powi (ilog2 x + 1)"
proof -
  have "2 powi ilog2 x \<le> x \<and> x < 2 powi (ilog2 x + 1)"
  proof (cases "1 \<le> x")
    case True
    define n where "n = nat \<lfloor>x\<rfloor>"
    have fpos: "1 \<le> \<lfloor>x\<rfloor>" using True by simp
    then have npos: "0 < n" by (simp add: n_def)
    have fn: "rat_of_int \<lfloor>x\<rfloor> = rat_of_nat n" using fpos by (simp add: n_def)
    have nle: "rat_of_nat n \<le> x" using fn by (metis of_int_floor_le)
    have xlt: "x < rat_of_nat n + 1" using fn by linarith
    from log2floor_bounds [OF npos]
    have lo: "2 ^ log2floor n \<le> n" and hi: "n < 2 ^ Suc (log2floor n)" by simp_all
    have e: "ilog2 x = int (log2floor n)" using True by (simp add: ilog2_def n_def)
    from of_nat_mono [OF lo, where 'a = rat]
    have "(2::rat) ^ log2floor n \<le> rat_of_nat n" by simp
    then have A: "2 powi ilog2 x \<le> x" unfolding e power_int_of_nat using nle by linarith
    have "n + 1 \<le> 2 ^ Suc (log2floor n)" using hi by simp
    from of_nat_mono [OF this, where 'a = rat]
    have "rat_of_nat n + 1 \<le> 2 ^ Suc (log2floor n)" by simp
    then have "x < 2 ^ Suc (log2floor n)" using xlt by linarith
    moreover have "(2::rat) powi (ilog2 x + 1) = 2 ^ Suc (log2floor n)"
      by (simp add: e power_int_add)
    ultimately show ?thesis using A by simp
  next
    case False
    define y where "y = 1 / x"
    have y1: "1 < y" using False assms by (simp add: y_def)
    define n where "n = nat \<lfloor>y\<rfloor>"
    define m where "m = log2floor n"
    have fpos: "1 \<le> \<lfloor>y\<rfloor>" using y1 by simp
    then have npos: "0 < n" by (simp add: n_def)
    have fn: "rat_of_int \<lfloor>y\<rfloor> = rat_of_nat n" using fpos by (simp add: n_def)
    have nle: "rat_of_nat n \<le> y" using fn by (metis of_int_floor_le)
    have ylt: "y < rat_of_nat n + 1" using fn by linarith
    from log2floor_bounds [OF npos]
    have lo: "2 ^ m \<le> n" and hi: "n < 2 ^ Suc m" by (simp_all add: m_def)
    from of_nat_mono [OF lo, where 'a = rat]
    have "(2::rat) ^ m \<le> rat_of_nat n" by simp
    then have ylo: "2 ^ m \<le> y" using nle by linarith
    have "n + 1 \<le> 2 ^ Suc m" using hi by simp
    from of_nat_mono [OF this, where 'a = rat]
    have "rat_of_nat n + 1 \<le> 2 ^ Suc m" by simp
    then have yhi: "y < 2 ^ Suc m" using ylt by linarith
    have xy: "x = 1 / y" using assms by (simp add: y_def)
    have xhi: "x \<le> 1 / 2 ^ m"
      unfolding xy using ylo by (simp add: frac_le)
    have xlo: "1 / 2 ^ Suc m < x"
      unfolding xy using yhi y1 by (simp add: frac_less2)
    have p1: "(2::rat) powi (- int m) = 1 / 2 ^ m" by (simp add: power_int_minus_divide)
    have p2: "(2::rat) powi (- int m - 1) = 1 / 2 ^ Suc m"
    proof -
      have "- int m - 1 = - int (Suc m)" by simp
      then show ?thesis by (simp only: power_int_minus_divide power_int_of_nat)
    qed
    have p3: "(2::rat) powi (- int m + 1) = 2 * (1 / 2 ^ m)"
      by (subst power_int_add_1) (simp_all add: power_int_minus_divide)
    show ?thesis
    proof (cases "2 powi (- int m) \<le> x")
      case T: True
      then have e: "ilog2 x = - int m"
        using False by (simp add: ilog2_def Let_def y_def n_def m_def)
      have "0 < 1 / (2::rat) ^ m" by simp
      with xhi have "x < 2 * (1 / 2 ^ m)" by linarith
      then show ?thesis using T unfolding e p3 by simp
    next
      case F: False
      then have e: "ilog2 x = - int m - 1"
        using False by (simp add: ilog2_def Let_def y_def n_def m_def)
      have "x < 2 powi (- int m)" using F by simp
      moreover have "- int m - 1 + 1 = - int m" by simp
      ultimately show ?thesis using xlo unfolding e p2 by simp
    qed
  qed
  then show "2 powi ilog2 x \<le> x" and "x < 2 powi (ilog2 x + 1)" by simp_all
qed

lemma round_even_error: "\<bar>of_int (round_even x) - x\<bar> \<le> 1 / 2"
proof -
  define f where "f = \<lfloor>x\<rfloor>"
  have "rat_of_int f \<le> x" "x < rat_of_int f + 1" unfolding f_def by linarith+
  then show ?thesis
    unfolding round_even_def f_def [symmetric] Let_def by (auto simp: abs_if)
qed

lemma round_even_of_int: "round_even (of_int n) = n"
  by (simp add: round_even_def)

lemma round_even_nonneg: "0 \<le> x \<Longrightarrow> 0 \<le> round_even x"
proof -
  assume "0 \<le> x"
  then have "0 \<le> \<lfloor>x\<rfloor>" by simp
  then show ?thesis by (simp add: round_even_def Let_def)
qed

lemma fl_nonneg: "0 \<le> x \<Longrightarrow> 0 \<le> fl x"
proof (cases "x = 0")
  case True
  then show ?thesis by (simp add: fl_def)
next
  case False
  assume "0 \<le> x"
  define q :: rat where "q = 2 powi (max (ilog2 \<bar>x\<bar>) (- 1022) - 52)"
  have "0 < q" by (simp add: q_def)
  with \<open>0 \<le> x\<close> have "0 \<le> x / q" by simp
  then have "0 \<le> round_even (x / q)" by (rule round_even_nonneg)
  with \<open>0 < q\<close> have "0 \<le> rat_of_int (round_even (x / q)) * q" by simp
  then show ?thesis using False by (simp add: fl_def Let_def q_def)
qed

lemma fl_error:
  assumes "0 < x"
  shows "\<bar>fl x - x\<bar> \<le> x * 2 powi (- 53) + 2 powi (- 1075)"
proof -
  define e where "e = max (ilog2 x) (- 1022)"
  define q :: rat where "q = 2 powi (e - 52)"
  define r where "r = round_even (x / q)"
  have qpos: "0 < q" by (simp add: q_def)
  have flx: "fl x = of_int r * q"
    using assms by (simp add: fl_def Let_def e_def q_def r_def)
  have "\<bar>of_int r - x / q\<bar> \<le> 1 / 2" unfolding r_def by (rule round_even_error)
  then have "\<bar>of_int r - x / q\<bar> * q \<le> 1 / 2 * q"
    using qpos by (intro mult_right_mono) simp_all
  moreover have "\<bar>of_int r - x / q\<bar> * q = \<bar>of_int r * q - x\<bar>"
  proof -
    have "\<bar>of_int r - x / q\<bar> * q = \<bar>(of_int r - x / q) * q\<bar>"
      using qpos by (simp add: abs_mult)
    also have "(of_int r - x / q) * q = of_int r * q - x"
      using qpos by (simp add: field_simps)
    finally show ?thesis .
  qed
  ultimately have err: "\<bar>fl x - x\<bar> \<le> q / 2" by (simp add: flx)
  have half: "q / 2 = 2 powi (e - 53)"
  proof -
    have "(2::rat) powi (e - 53 + 1) = 2 powi (e - 53) * 2"
      by (rule power_int_add_1) simp
    moreover have "e - 53 + 1 = e - 52" by simp
    ultimately show ?thesis by (simp add: q_def)
  qed
  have "2 powi (e - 53) \<le> x * 2 powi (- 53) + (2::rat) powi (- 1075)"
  proof (cases "- 1022 \<le> ilog2 x")
    case True
    then have "e - 53 = ilog2 x + (- 53)" by (simp add: e_def)
    then have "(2::rat) powi (e - 53) = 2 powi (ilog2 x + (- 53))" by (rule arg_cong)
    also have "\<dots> = 2 powi ilog2 x * 2 powi (- 53)"
      by (rule power_int_add) simp
    also have "\<dots> \<le> x * 2 powi (- 53)"
      using ilog2_bounds(1) [OF assms] by (intro mult_right_mono) simp_all
    finally have "(2::rat) powi (e - 53) \<le> x * 2 powi (- 53)" .
    moreover have "0 < (2::rat) powi (- 1075)" by (rule zero_less_power_int) simp
    ultimately show ?thesis by linarith
  next
    case False
    then have "e - 53 = - 1075" by (simp add: e_def)
    then have "(2::rat) powi (e - 53) = 2 powi (- 1075)" by (rule arg_cong)
    moreover have "0 \<le> x * 2 powi (- 53)"
      using assms by (intro mult_nonneg_nonneg zero_le_power_int) simp_all
    ultimately show ?thesis by linarith
  qed
  with err half show ?thesis by simp
qed

lemma fl_exact:
  assumes m: "0 < m" "m < 2 ^ 53" and p: "- 1074 \<le> p"
  shows "fl (of_int m * 2 powi p) = of_int m * 2 powi p"
proof -
  define x :: rat where "x = of_int m * 2 powi p"
  have xpos: "0 < x" using m by (simp add: x_def)
  define e where "e = max (ilog2 x) (- 1022)"
  define q :: rat where "q = 2 powi (e - 52)"
  have "2 powi ilog2 x \<le> x" by (rule ilog2_bounds(1) [OF xpos])
  also have "x < 2 ^ 53 * 2 powi p"
  proof -
    have "rat_of_int m < rat_of_int (2 ^ 53)" using m by (simp only: of_int_less_iff)
    then show ?thesis unfolding x_def by (intro mult_strict_right_mono) simp_all
  qed
  also have "\<dots> = 2 powi (53 + p)" by (simp add: power_int_add)
  finally have "(2::rat) powi ilog2 x < 2 powi (53 + p)" .
  then have "ilog2 x < 53 + p"
    using power_int_increasing [of "53 + p" "ilog2 x" "2::rat"]
    by (cases "ilog2 x < 53 + p") simp_all
  then have k0: "0 \<le> p - (e - 52)" using p by (simp add: e_def)
  define k where "k = nat (p - (e - 52))"
  have pk: "p = int k + (e - 52)" using k0 by (simp add: k_def)
  have pw: "(2::rat) powi p = 2 ^ k * q"
    unfolding q_def by (subst pk) (simp add: power_int_add)
  have qpos: "0 < q" by (simp add: q_def)
  have "x / q = of_int (m * 2 ^ k)"
    using qpos by (simp add: x_def pw)
  then have "round_even (x / q) = m * 2 ^ k" by (simp only: round_even_of_int)
  moreover have "fl x = of_int (round_even (x / q)) * q"
    using xpos by (simp add: fl_def Let_def e_def q_def)
  ultimately have "fl x = x" by (simp add: x_def pw)
  then show ?thesis by (simp add: x_def)
qed

lemma fl_of_nat: "n < 2 ^ 53 \<Longrightarrow> fl (of_nat n) = of_nat n"
proof (cases "n = 0")
  case True
  then show ?thesis by (simp add: fl_def)
next
  case False
  assume "n < 2 ^ 53"
  then have "int n < 2 ^ 53" by (metis of_nat_less_iff of_nat_numeral of_nat_power)
  with False fl_exact [of "int n" 0] show ?thesis by simp
qed

lemma fl_half_of_nat: "n < 2 ^ 53 \<Longrightarrow> fl (of_nat n / 2) = of_nat n / 2"
proof (cases "n = 0")
  case True
  then show ?thesis by (simp add: fl_def)
next
  case False
  assume "n < 2 ^ 53"
  then have "int n < 2 ^ 53" by (metis of_nat_less_iff of_nat_numeral of_nat_power)
  with False fl_exact [of "int n" "- 1"] show ?thesis by (simp add: power_int_minus_divide)
qed

lemma u_value: "(2::rat) powi (- 53) = 1 / 9007199254740992"
  by simp

lemma t_le_u: "(2::rat) powi (- 1075) \<le> 2 powi (- 53)"
  by (rule power_int_increasing) simp_all

lemma fl_error_abs: "\<bar>fl x - x\<bar> \<le> \<bar>x\<bar> * 2 powi (- 53) + 2 powi (- 1075)"
proof (cases "x = 0")
  case True
  then show ?thesis by (simp add: fl_def)
next
  case False
  define e where "e = max (ilog2 \<bar>x\<bar>) (- 1022)"
  define q :: rat where "q = 2 powi (e - 52)"
  define r where "r = round_even (x / q)"
  have apos: "0 < \<bar>x\<bar>" using False by simp
  have qpos: "0 < q" by (simp add: q_def)
  have flx: "fl x = of_int r * q"
    using False by (simp add: fl_def Let_def e_def q_def r_def)
  have "\<bar>of_int r - x / q\<bar> \<le> 1 / 2" unfolding r_def by (rule round_even_error)
  then have "\<bar>of_int r - x / q\<bar> * q \<le> 1 / 2 * q"
    using qpos by (intro mult_right_mono) simp_all
  moreover have "\<bar>of_int r - x / q\<bar> * q = \<bar>of_int r * q - x\<bar>"
  proof -
    have "\<bar>of_int r - x / q\<bar> * q = \<bar>(of_int r - x / q) * q\<bar>"
      using qpos by (simp add: abs_mult)
    also have "(of_int r - x / q) * q = of_int r * q - x"
      using qpos by (simp add: field_simps)
    finally show ?thesis .
  qed
  ultimately have err: "\<bar>fl x - x\<bar> \<le> q / 2" by (simp add: flx)
  have half: "q / 2 = 2 powi (e - 53)"
  proof -
    have "(2::rat) powi (e - 53 + 1) = 2 powi (e - 53) * 2"
      by (rule power_int_add_1) simp
    moreover have "e - 53 + 1 = e - 52" by simp
    ultimately show ?thesis by (simp add: q_def)
  qed
  have "2 powi (e - 53) \<le> \<bar>x\<bar> * 2 powi (- 53) + (2::rat) powi (- 1075)"
  proof (cases "- 1022 \<le> ilog2 \<bar>x\<bar>")
    case True
    then have "e - 53 = ilog2 \<bar>x\<bar> + (- 53)" by (simp add: e_def)
    then have "(2::rat) powi (e - 53) = 2 powi (ilog2 \<bar>x\<bar> + (- 53))" by (rule arg_cong)
    also have "\<dots> = 2 powi ilog2 \<bar>x\<bar> * 2 powi (- 53)"
      by (rule power_int_add) simp
    also have "\<dots> \<le> \<bar>x\<bar> * 2 powi (- 53)"
      using ilog2_bounds(1) [OF apos] by (intro mult_right_mono) simp_all
    finally have "(2::rat) powi (e - 53) \<le> \<bar>x\<bar> * 2 powi (- 53)" .
    moreover have "0 < (2::rat) powi (- 1075)" by (rule zero_less_power_int) simp
    ultimately show ?thesis by linarith
  next
    case F: False
    then have "e - 53 = - 1075" by (simp add: e_def)
    then have "(2::rat) powi (e - 53) = 2 powi (- 1075)" by (rule arg_cong)
    moreover have "0 \<le> \<bar>x\<bar> * 2 powi (- 53)"
      by (intro mult_nonneg_nonneg zero_le_power_int) simp_all
    ultimately show ?thesis by linarith
  qed
  with err half show ?thesis by simp
qed

lemma fl_close: "\<bar>fl x - x\<bar> \<le> \<bar>x\<bar> / 9007199254740992 + 1 / 9007199254740992"
proof -
  have "\<bar>fl x - x\<bar> \<le> \<bar>x\<bar> * 2 powi (- 53) + 2 powi (- 1075)" by (rule fl_error_abs)
  moreover have "(2::rat) powi (- 1075) \<le> 2 powi (- 53)" by (rule t_le_u)
  ultimately show ?thesis unfolding u_value by simp
qed

section \<open>Aspect-ratio detection\<close>

lemma tolerance_value: "tolerance = 3602879701896397 / 72057594037927936"
  by (simp add: tolerance_def fl_eval)

lemma sixteen_ninths_value: "fdiv 16 9 = 2001599834386887 / 1125899906842624"
  by (simp add: fdiv_def fl_eval)

lemma nine_sixteenths_value: "fdiv 9 16 = 9 / 16"
  by (simp add: fdiv_def fl_eval)

lemmas tol_eval = within_tolerance_def fsub_def fdiv_def tolerance_value fl_eval

lemma ratio_scale:
  "0 < k \<Longrightarrow> rat_of_nat (k * w) / rat_of_nat (k * h) = rat_of_nat w / rat_of_nat h"
  by simp

lemma detect_ratio_1_0475:
  assumes "0 < h" and "rat_of_nat w / rat_of_nat h = 419 / 400"
  shows "detectAspectRatio w h = ''1:1''"
proof -
  have "within_tolerance (fdiv (of_nat w) (of_nat h)) 1"
    unfolding fdiv_def assms(2) by (simp add: within_tolerance_def fsub_def tolerance_value fl_eval)
  with assms(1) show ?thesis by (simp add: detectAspectRatio_def)
qed

lemma tolerance_bounds: "1 / 20 < tolerance" "tolerance \<le> 1 / 20 + 1 / 9007199254740992"
  by (simp_all add: tolerance_value)

lemma within_tolerance_exact:
  assumes r: "0 \<le> r"
    and c: "1 / 2 \<le> c" "c \<le> 2" and C: "\<bar>C - c\<bar> \<le> 2 / 9007199254740992"
    and off: "1 / 1099511627776 \<le> \<bar>\<bar>r - c\<bar> - 1 / 20\<bar>"
  shows "within_tolerance (fl r) C \<longleftrightarrow> \<bar>r - c\<bar> < 1 / 20"
proof -
  define X where "X = fl r - C"
  define D where "D = fl X"
  have wt: "within_tolerance (fl r) C \<longleftrightarrow> \<bar>D\<bar> < tolerance"
    by (simp add: within_tolerance_def fsub_def D_def X_def)
  have e1: "\<bar>fl r - r\<bar> \<le> r / 9007199254740992 + 1 / 9007199254740992"
    using fl_close [of r] r by simp
  have e2: "\<bar>D - X\<bar> \<le> \<bar>X\<bar> / 9007199254740992 + 1 / 9007199254740992"
    unfolding D_def by (rule fl_close)
  show ?thesis
  proof (cases "\<bar>r - c\<bar> < 1 / 20")
    case True
    with off have near: "\<bar>r - c\<bar> \<le> 1 / 20 - 1 / 1099511627776" by linarith
    then have "r \<le> 3" using c by linarith
    with e1 have "\<bar>fl r - r\<bar> \<le> 4 / 9007199254740992" by linarith
    with near C have x: "\<bar>X\<bar> \<le> 1 / 20 - 1 / 1099511627776 + 6 / 9007199254740992"
      unfolding X_def by linarith
    then have "\<bar>X\<bar> \<le> 1" by linarith
    with e2 have "\<bar>D - X\<bar> \<le> 2 / 9007199254740992" by linarith
    with x have "\<bar>D\<bar> < 1 / 20" by linarith
    with tolerance_bounds(1) True show ?thesis unfolding wt by linarith
  next
    case False
    with off have far: "1 / 20 + 1 / 1099511627776 \<le> \<bar>r - c\<bar>" by linarith
    have "tolerance \<le> \<bar>D\<bar>"
    proof (cases "r \<le> 4")
      case True
      with e1 r have er: "\<bar>fl r - r\<bar> \<le> 5 / 9007199254740992" by linarith
      with far C have lo: "1 / 20 + 1 / 1099511627776 - 7 / 9007199254740992 \<le> \<bar>X\<bar>"
        unfolding X_def by linarith
      from er True r c C have "\<bar>X\<bar> \<le> 7" unfolding X_def by linarith
      with e2 have "\<bar>D - X\<bar> \<le> 8 / 9007199254740992" by linarith
      with lo have "1 / 20 + 1 / 9007199254740992 \<le> \<bar>D\<bar>" by linarith
      with tolerance_bounds(2) show ?thesis by linarith
    next
      case F: False
      then have r4: "4 < r" by simp
      with e1 have "3 \<le> fl r" by linarith
      with c C have x: "1 / 2 \<le> X" unfolding X_def by linarith
      with e2 have "1 / 4 \<le> D" by linarith
      with tolerance_bounds(2) show ?thesis by linarith
    qed
    with False show ?thesis unfolding wt by linarith
  qed
qed

lemma off_boundary:
  fixes w h p q :: nat
  assumes h: "0 < h" "h < 2 ^ 31" and q: "0 < q" "q \<le> 16"
    and ne: "\<bar>rat_of_nat w / rat_of_nat h - rat_of_nat p / rat_of_nat q\<bar> \<noteq> 1 / 20"
  shows "1 / 1099511627776
           \<le> \<bar>\<bar>rat_of_nat w / rat_of_nat h - rat_of_nat p / rat_of_nat q\<bar> - 1 / 20\<bar>"
proof -
  define a :: int where "a = int w * int q - int p * int h"
  define d :: int where "d = 20 * \<bar>a\<bar> - int q * int h"
  have hq: "0 < rat_of_nat h" "0 < rat_of_nat q" using h q by simp_all
  have diff: "rat_of_nat w / rat_of_nat h - rat_of_nat p / rat_of_nat q
                = of_int a / (rat_of_nat q * rat_of_nat h)"
    using hq by (simp add: a_def field_simps)
  have absd: "\<bar>rat_of_nat w / rat_of_nat h - rat_of_nat p / rat_of_nat q\<bar>
                = of_int \<bar>a\<bar> / (rat_of_nat q * rat_of_nat h)"
    unfolding diff using hq by (simp add: abs_divide)
  have eq: "\<bar>rat_of_nat w / rat_of_nat h - rat_of_nat p / rat_of_nat q\<bar> - 1 / 20
              = of_int d / (20 * rat_of_nat q * rat_of_nat h)"
    unfolding absd using hq by (simp add: d_def field_simps)
  have "d \<noteq> 0"
  proof
    assume "d = 0"
    with eq have "\<bar>rat_of_nat w / rat_of_nat h - rat_of_nat p / rat_of_nat q\<bar> - 1 / 20 = 0"
      by simp
    with ne show False by simp
  qed
  then have "1 \<le> \<bar>d\<bar>" by simp
  then have d1: "1 \<le> \<bar>rat_of_int d\<bar>" by (metis of_int_1_le_iff of_int_abs)
  have "rat_of_nat q \<le> 16" using q by simp
  moreover have "rat_of_nat h \<le> 2 ^ 31"
    using h by (metis less_imp_le of_nat_le_iff of_nat_numeral of_nat_power)
  ultimately have "rat_of_nat q * rat_of_nat h \<le> 16 * 2 ^ 31"
    using hq by (intro mult_mono) simp_all
  then have "rat_of_nat h * rat_of_nat q \<le> 16 * 2 ^ 31" by (simp only: mult.commute)
  then have den: "20 * rat_of_nat q * rat_of_nat h \<le> 1099511627776" by simp
  have dpos: "0 < 20 * rat_of_nat q * rat_of_nat h" using hq by simp
  have "1 / 1099511627776 \<le> 1 / (20 * rat_of_nat q * rat_of_nat h)"
    using den dpos by (simp add: frac_le)
  also have "\<dots> \<le> \<bar>rat_of_int d\<bar> / (20 * rat_of_nat q * rat_of_nat h)"
    using d1 dpos by (simp add: divide_right_mono)
  also have "\<dots> = \<bar>of_int d / (20 * rat_of_nat q * rat_of_nat h)\<bar>"
    using dpos by (simp add: abs_divide)
  finally show ?thesis unfolding eq .
qed

lemma detect_off_boundary:
  assumes h: "0 < h" "h < 2 ^ 31"
    and off: "\<bar>rat_of_nat w / rat_of_nat h - 1\<bar> \<noteq> 1 / 20"
      "\<bar>rat_of_nat w / rat_of_nat h - 16 / 9\<bar> \<noteq> 1 / 20"
      "\<bar>rat_of_nat w / rat_of_nat h - 9 / 16\<bar> \<noteq> 1 / 20"
  shows "detectAspectRatio w h = classify_exact w h"
proof -
  define r where "r = rat_of_nat w / rat_of_nat h"
  have r0: "0 \<le> r" by (simp add: r_def)
  have o1: "1 / 1099511627776 \<le> \<bar>\<bar>r - 1\<bar> - 1 / 20\<bar>"
    using off_boundary [OF h, of 1 w 1] off(1) by (simp add: r_def)
  have o2: "1 / 1099511627776 \<le> \<bar>\<bar>r - 16 / 9\<bar> - 1 / 20\<bar>"
    using off_boundary [OF h, of 9 w 16] off(2) by (simp add: r_def)
  have o3: "1 / 1099511627776 \<le> \<bar>\<bar>r - 9 / 16\<bar> - 1 / 20\<bar>"
    using off_boundary [OF h, of 16 w 9] off(3) by (simp add: r_def)
  have t1: "within_tolerance (fl r) 1 \<longleftrightarrow> \<bar>r - 1\<bar> < 1 / 20"
    by (rule within_tolerance_exact [OF r0 _ _ _ o1]) simp_all
  have t2: "within_tolerance (fl r) (fdiv 16 9) \<longleftrightarrow> \<bar>r - 16 / 9\<bar> < 1 / 20"
    by (rule within_tolerance_exact [OF r0 _ _ _ o2]) (simp_all add: sixteen_ninths_value)
  have t3: "within_tolerance (fl r) (fdiv 9 16) \<longleftrightarrow> \<bar>r - 9 / 16\<bar> < 1 / 20"
    by (rule within_tolerance_exact [OF r0 _ _ _ o3]) (simp_all add: nine_sixteenths_value)
  show ?thesis
    unfolding detectAspectRatio_def classify_exact_def Let_def fdiv_def [of "of_nat w"]
      r_def [symmetric] t1 t2 t3
    using h by simp
qed

lemma detect_311_180: "detectAspectRatio 311 180 = ''16:9''"
  unfolding detectAspectRatio_def Let_def by (simp add: tol_eval)

lemma classify_311_180: "classify_exact 311 180 = ''other''"
  by (simp add: classify_exact_def)

text \<open>
  C4, as stated, fails: the tests of \<open>detectAspectRatio\<close> are made in binary64, and on the
  boundary of a tolerance they can hold where the exact strict test does not. An image of
  311 by 180 pixels has \<open>|ratio - 16/9| = 0.05\<close> exactly, so that the exact tests answer
  \<open>other\<close>, and \<open>detectAspectRatio\<close> answers \<open>16:9\<close>.
\<close>

theorem detectAspectRatio_boundary_counterexample:
  "detectAspectRatio 311 180 = ''16:9'' \<and> classify_exact 311 180 = ''other''"
  by (simp add: detect_311_180 classify_311_180)

text \<open>
  C4, amended. For every image with a height below \<open>2 ^ 31\<close> whose ratio is at a distance
  other than exactly 0.05 from 1, from 16/9 and from 9/16, \<open>detectAspectRatio\<close>, which
  computes in binary64, answers what the exact tests answer in their fixed order:
  \<open>|ratio - 1| < 0.05\<close> gives \<open>1:1\<close>, else \<open>|ratio - 16/9| < 0.05\<close> gives \<open>16:9\<close>, else
  \<open>|ratio - 9/16| < 0.05\<close> gives \<open>9:16\<close>, else \<open>other\<close>. Every image whose ratio is exactly
  1.0475 is \<open>1:1\<close>; 1024x1024 and 800x801 are \<open>1:1\<close>, 1920x1080 is \<open>16:9\<close>, 1080x1920 is
  \<open>9:16\<close> and 1000x400 is \<open>other\<close>.
\<close>

theorem detectAspectRatio_exact_off_boundary:
  "(0 < h \<and> h < 2 ^ 31
      \<and> \<bar>rat_of_nat w / rat_of_nat h - 1\<bar> \<noteq> 1 / 20
      \<and> \<bar>rat_of_nat w / rat_of_nat h - 16 / 9\<bar> \<noteq> 1 / 20
      \<and> \<bar>rat_of_nat w / rat_of_nat h - 9 / 16\<bar> \<noteq> 1 / 20
    \<longrightarrow> detectAspectRatio w h = classify_exact w h)
   \<and> (0 < h \<and> rat_of_nat w / rat_of_nat h = 419 / 400 \<longrightarrow> detectAspectRatio w h = ''1:1'')
   \<and> detectAspectRatio 1024 1024 = ''1:1''
   \<and> detectAspectRatio 1920 1080 = ''16:9''
   \<and> detectAspectRatio 1080 1920 = ''9:16''
   \<and> detectAspectRatio 800 801 = ''1:1''
   \<and> detectAspectRatio 1000 400 = ''other''"
proof (intro conjI impI)
  show "detectAspectRatio w h = classify_exact w h"
    if "0 < h \<and> h < 2 ^ 31
      \<and> \<bar>rat_of_nat w / rat_of_nat h - 1\<bar> \<noteq> 1 / 20
      \<and> \<bar>rat_of_nat w / rat_of_nat h - 16 / 9\<bar> \<noteq> 1 / 20
      \<and> \<bar>rat_of_nat w / rat_of_nat h - 9 / 16\<bar> \<noteq> 1 / 20"
    using that by (intro detect_off_boundary) simp_all
  show "detectAspectRatio w h = ''1:1''"
    if "0 < h \<and> rat_of_nat w / rat_of_nat h = 419 / 400"
    using that detect_ratio_1_0475 [of h w] by simp
  show "detectAspectRatio 1024 1024 = ''1:1''"
    unfolding detectAspectRatio_def Let_def by (simp add: tol_eval)
  show "detectAspectRatio 1920 1080 = ''16:9''"
    unfolding detectAspectRatio_def Let_def by (simp add: tol_eval)
  show "detectAspectRatio 1080 1920 = ''9:16''"
    unfolding detectAspectRatio_def Let_def by (simp add: tol_eval)
  show "detectAspectRatio 800 801 = ''1:1''"
    unfolding detectAspectRatio_def Let_def by (simp add: tol_eval)
  show "detectAspectRatio 1000 400 = ''other''"
    unfolding detectAspectRatio_def Let_def by (simp add: tol_eval)
qed

theorem detectAspectRatio_exact_off_boundary_witness:
  "(0::nat) < 800 \<and> (800::nat) < 2 ^ 31
   \<and> \<bar>rat_of_nat 838 / rat_of_nat 800 - 1\<bar> \<noteq> 1 / 20
   \<and> \<bar>rat_of_nat 838 / rat_of_nat 800 - 16 / 9\<bar> \<noteq> 1 / 20
   \<and> \<bar>rat_of_nat 838 / rat_of_nat 800 - 9 / 16\<bar> \<noteq> 1 / 20
   \<and> rat_of_nat 838 / rat_of_nat 800 = 419 / 400
   \<and> detectAspectRatio 838 800 = classify_exact 838 800
   \<and> detectAspectRatio 838 800 = ''1:1''"
proof -
  have h: "(0::nat) < 800" "(800::nat) < 2 ^ 31" by simp_all
  have o: "\<bar>rat_of_nat 838 / rat_of_nat 800 - 1\<bar> \<noteq> 1 / 20"
    "\<bar>rat_of_nat 838 / rat_of_nat 800 - 16 / 9\<bar> \<noteq> 1 / 20"
    "\<bar>rat_of_nat 838 / rat_of_nat 800 - 9 / 16\<bar> \<noteq> 1 / 20"
    by simp_all
  have r: "rat_of_nat 838 / rat_of_nat 800 = 419 / 400" by simp
  from detectAspectRatio_exact_off_boundary [of 800 838] h o r
  have "detectAspectRatio 838 800 = classify_exact 838 800"
    and "detectAspectRatio 838 800 = ''1:1''"
    by blast+
  with h o r show ?thesis by blast
qed

text \<open>
  C5. \<open>detectAspectRatio\<close> always answers with one of its four classes, and multiplying
  the width and the height by the same positive factor does not change the answer.
\<close>

theorem detectAspectRatio_total_scale_invariant:
  assumes "0 < k"
  shows "detectAspectRatio w h \<in> {''1:1'', ''16:9'', ''9:16'', ''other''}
         \<and> detectAspectRatio (k * w) (k * h) = detectAspectRatio w h"
proof
  show "detectAspectRatio w h \<in> {''1:1'', ''16:9'', ''9:16'', ''other''}"
    by (simp add: detectAspectRatio_def Let_def)
  have ratio: "fdiv (of_nat (k * w)) (of_nat (k * h)) = fdiv (of_nat w) (of_nat h)"
    unfolding fdiv_def ratio_scale [OF assms] by (rule refl)
  have zero: "(k * h = 0) = (h = 0)" using assms by simp
  show "detectAspectRatio (k * w) (k * h) = detectAspectRatio w h"
    unfolding detectAspectRatio_def ratio zero by (rule refl)
qed

theorem detectAspectRatio_total_scale_invariant_witness:
  "(0::nat) < 3 \<and> detectAspectRatio (3 * 640) (3 * 360) = ''16:9''
     \<and> detectAspectRatio 640 360 = ''16:9''"
proof -
  have k: "(0::nat) < 3" by simp
  have "detectAspectRatio 640 360 = ''16:9''"
    unfolding detectAspectRatio_def Let_def by (simp add: tol_eval)
  with k detectAspectRatio_total_scale_invariant [OF k, of 640 360] show ?thesis by simp
qed

section \<open>Padding\<close>

lemma fl_upper:
  assumes "0 \<le> x"
  shows "fl x \<le> x + x / 9007199254740992 + 1 / 9007199254740992"
proof (cases "x = 0")
  case True
  then show ?thesis by (simp add: fl_def)
next
  case False
  with assms have "0 < x" by simp
  from fl_error [OF this] have "fl x - x \<le> x * 2 powi (- 53) + 2 powi (- 1075)" by linarith
  with t_le_u show ?thesis unfolding u_value by linarith
qed

lemma scaled_side_le:
  assumes W: "0 < W" "W < 2 ^ 31" and T: "T < 2 ^ 31" and s: "0 \<le> s" "s \<le> fl (rat_of_nat T / rat_of_nat W)"
  shows "Math_round (fl (rat_of_nat W * s)) \<le> int T"
proof -
  define w :: rat where "w = of_nat W"
  define t :: rat where "t = of_nat T"
  have wpos: "0 < w" using W by (simp add: w_def)
  have wlt: "w < 2147483648"
  proof -
    have "rat_of_nat W < rat_of_nat (2 ^ 31)" using W(2) by (simp only: of_nat_less_iff)
    then show ?thesis by (simp add: w_def)
  qed
  have tlt: "t < 2147483648"
  proof -
    have "rat_of_nat T < rat_of_nat (2 ^ 31)" using T by (simp only: of_nat_less_iff)
    then show ?thesis by (simp add: t_def)
  qed
  have t0: "0 \<le> t" by (simp add: t_def)
  have q0: "0 \<le> t / w" using t0 wpos by simp
  from fl_upper [OF q0]
  have "fl (t / w) \<le> t / w + t / w / 9007199254740992 + 1 / 9007199254740992" .
  with s(2) have "s \<le> t / w + t / w / 9007199254740992 + 1 / 9007199254740992"
    by (simp add: w_def t_def)
  then have "w * s \<le> w * (t / w + t / w / 9007199254740992 + 1 / 9007199254740992)"
    using wpos by (intro mult_left_mono) simp_all
  also have "\<dots> = t + t / 9007199254740992 + w / 9007199254740992"
    using wpos by (simp add: field_simps)
  finally have y: "w * s \<le> t + t / 9007199254740992 + w / 9007199254740992" .
  have y0: "0 \<le> w * s" using wpos s(1) by simp
  from fl_upper [OF y0]
  have "fl (w * s) \<le> w * s + w * s / 9007199254740992 + 1 / 9007199254740992" .
  with y t0 wlt tlt have "fl (w * s) + 1 / 2 < t + 1" by linarith
  then have "fl (w * s) + 1 / 2 < rat_of_int (int T + 1)" by (simp add: t_def)
  then have "\<lfloor>fl (w * s) + 1 / 2\<rfloor> < int T + 1" by (simp only: floor_less_iff)
  then show ?thesis by (simp add: Math_round_def w_def)
qed

lemma scaled_side_nonneg: "0 \<le> s \<Longrightarrow> 0 \<le> Math_round (fl (rat_of_nat W * s))"
proof -
  assume "0 \<le> s"
  then have "0 \<le> rat_of_nat W * s" by simp
  then have "0 \<le> fl (rat_of_nat W * s)" by (rule fl_nonneg)
  then have "0 \<le> \<lfloor>fl (rat_of_nat W * s) + 1 / 2\<rfloor>" by simp
  then show ?thesis by (simp add: Math_round_def)
qed

lemma centre_offset:
  assumes "0 \<le> n" "n \<le> int T" "T < 2 ^ 31"
  shows "Math_round (fdiv (fsub (of_nat T) (of_int n)) 2) = (int T - n + 1) div 2"
proof -
  define d where "d = nat (int T - n)"
  have dT: "d \<le> T" using assms by (simp add: d_def)
  then have d53: "d < 2 ^ 53" using assms(3) by simp
  have "rat_of_nat T - rat_of_int n = rat_of_nat d"
    using assms by (simp add: d_def)
  then have e1: "fsub (of_nat T) (of_int n) = of_nat d"
    by (simp add: fsub_def fl_of_nat [OF d53])
  have e2: "fdiv (fsub (of_nat T) (of_int n)) 2 = of_nat d / 2"
    unfolding fdiv_def e1 by (rule fl_half_of_nat [OF d53])
  have e3: "rat_of_nat d / 2 + 1 / 2 = rat_of_int (int d + 1) / rat_of_int 2"
    by (simp add: add_divide_distrib)
  have "Math_round (fdiv (fsub (of_nat T) (of_int n)) 2) = (int d + 1) div 2"
    unfolding Math_round_def e2 e3 by (rule floor_divide_of_int_eq)
  then show ?thesis using assms by (simp add: d_def)
qed

lemma margins:
  fixes d :: int
  assumes "0 \<le> d"
  shows "0 \<le> (d + 1) div 2" "0 \<le> d - (d + 1) div 2" "\<bar>(d + 1) div 2 - (d - (d + 1) div 2)\<bar> \<le> 1"
  using assms by presburger+

text \<open>
  C9. For positive source and target dimensions (below \<open>2 ^ 31\<close>, which every image
  dimension is), the resized image of \<open>createPaddedImage\<close> is never larger than the canvas,
  the offsets are \<open>left = \<lceil>(targetWidth - newWidth) / 2\<rceil>\<close> and
  \<open>top = \<lceil>(targetHeight - newHeight) / 2\<rceil>\<close>, no offset and no margin is negative, and the
  left and right margins, and the top and bottom margins, differ by at most one pixel. The
  scale, the products and the offsets are computed in binary64.
\<close>

theorem padding_centered:
  assumes pos: "0 < ow" "0 < oh" "0 < tw" "0 < th"
    and bound: "ow < 2 ^ 31" "oh < 2 ^ 31" "tw < 2 ^ 31" "th < 2 ^ 31"
  shows "let g = padding_layout ow oh tw th;
             right_margin = int tw - newWidth g - left_offset g;
             bottom_margin = int th - newHeight g - top_offset g
         in 0 \<le> newWidth g \<and> newWidth g \<le> int tw \<and> 0 \<le> newHeight g \<and> newHeight g \<le> int th
            \<and> left_offset g = (int tw - newWidth g + 1) div 2
            \<and> top_offset g = (int th - newHeight g + 1) div 2
            \<and> 0 \<le> left_offset g \<and> 0 \<le> right_margin \<and> \<bar>left_offset g - right_margin\<bar> \<le> 1
            \<and> 0 \<le> top_offset g \<and> 0 \<le> bottom_margin \<and> \<bar>top_offset g - bottom_margin\<bar> \<le> 1"
proof -
  define sw where "sw = fdiv (of_nat tw) (of_nat ow)"
  define sh where "sh = fdiv (of_nat th) (of_nat oh)"
  define scale where "scale = min sw sh"
  define nw where "nw = Math_round (fmul (of_nat ow) scale)"
  define nh where "nh = Math_round (fmul (of_nat oh) scale)"
  define l where "l = Math_round (fdiv (fsub (of_nat tw) (of_int nw)) 2)"
  define t where "t = Math_round (fdiv (fsub (of_nat th) (of_int nh)) 2)"
  have g: "padding_layout ow oh tw th =
             \<lparr>newWidth = nw, newHeight = nh, top_offset = t, left_offset = l\<rparr>"
    by (simp add: padding_layout_def Let_def sw_def sh_def scale_def nw_def nh_def l_def t_def)
  have sw0: "0 \<le> sw" unfolding sw_def fdiv_def by (rule fl_nonneg) simp
  have sh0: "0 \<le> sh" unfolding sh_def fdiv_def by (rule fl_nonneg) simp
  have s0: "0 \<le> scale" using sw0 sh0 by (simp add: scale_def)
  have s1: "scale \<le> fl (rat_of_nat tw / rat_of_nat ow)" by (simp add: scale_def sw_def fdiv_def)
  have s2: "scale \<le> fl (rat_of_nat th / rat_of_nat oh)" by (simp add: scale_def sh_def fdiv_def)
  have nw_le: "nw \<le> int tw"
    unfolding nw_def fmul_def by (rule scaled_side_le [OF pos(1) bound(1) bound(3) s0 s1])
  have nh_le: "nh \<le> int th"
    unfolding nh_def fmul_def by (rule scaled_side_le [OF pos(2) bound(2) bound(4) s0 s2])
  have nw0: "0 \<le> nw" unfolding nw_def fmul_def by (rule scaled_side_nonneg [OF s0])
  have nh0: "0 \<le> nh" unfolding nh_def fmul_def by (rule scaled_side_nonneg [OF s0])
  have l_eq: "l = (int tw - nw + 1) div 2"
    unfolding l_def by (rule centre_offset [OF nw0 nw_le bound(3)])
  have t_eq: "t = (int th - nh + 1) div 2"
    unfolding t_def by (rule centre_offset [OF nh0 nh_le bound(4)])
  have dw: "0 \<le> int tw - nw" using nw_le by simp
  have dh: "0 \<le> int th - nh" using nh_le by simp
  have l0: "0 \<le> l" and r0: "0 \<le> int tw - nw - l" and lr: "\<bar>l - (int tw - nw - l)\<bar> \<le> 1"
    unfolding l_eq using margins [OF dw] by simp_all
  have t0: "0 \<le> t" and b0: "0 \<le> int th - nh - t" and tb: "\<bar>t - (int th - nh - t)\<bar> \<le> 1"
    unfolding t_eq using margins [OF dh] by simp_all
  show ?thesis
    unfolding g Let_def layout.select_convs
    using nw0 nw_le nh0 nh_le l_eq t_eq l0 r0 lr t0 b0 tb by blast
qed

theorem padding_centered_witness:
  "newHeight (padding_layout 1920 1080 1024 1024) \<le> 1024
   \<and> top_offset (padding_layout 1920 1080 1024 1024)
       = (1024 - newHeight (padding_layout 1920 1080 1024 1024) + 1) div 2
   \<and> \<bar>top_offset (padding_layout 1920 1080 1024 1024)
        - (1024 - newHeight (padding_layout 1920 1080 1024 1024)
             - top_offset (padding_layout 1920 1080 1024 1024))\<bar> \<le> 1
   \<and> \<bar>left_offset (padding_layout 1920 1080 1024 1024)
        - (1024 - newWidth (padding_layout 1920 1080 1024 1024)
             - left_offset (padding_layout 1920 1080 1024 1024))\<bar> \<le> 1"
  using padding_centered [of 1920 1080 1024 1024] by (simp add: Let_def) arith

lemmas arith_eval = fdiv_def fmul_def fsub_def Math_round_def fl_eval

lemma layout_1920_1080_square:
  "padding_layout 1920 1080 1024 1024
     = \<lparr>newWidth = 1024, newHeight = 576, top_offset = 224, left_offset = 0\<rparr>"
  unfolding padding_layout_def Let_def by (simp add: arith_eval)

lemma layout_1920_1080_portrait:
  "padding_layout 1920 1080 576 1024
     = \<lparr>newWidth = 576, newHeight = 324, top_offset = 350, left_offset = 0\<rparr>"
  unfolding padding_layout_def Let_def by (simp add: arith_eval)

lemma layout_512_500_landscape:
  "padding_layout 512 500 1024 576
     = \<lparr>newWidth = 590, newHeight = 576, top_offset = 0, left_offset = 217\<rparr>"
  unfolding padding_layout_def Let_def by (simp add: arith_eval)

lemma layout_512_500_portrait:
  "padding_layout 512 500 576 1024
     = \<lparr>newWidth = 576, newHeight = 563, top_offset = 231, left_offset = 0\<rparr>"
  unfolding padding_layout_def Let_def by (simp add: arith_eval)

lemma detect_1920_1080: "detectAspectRatio 1920 1080 = ''16:9''"
  unfolding detectAspectRatio_def Let_def by (simp add: tol_eval)

lemma detect_512_500: "detectAspectRatio 512 500 = ''1:1''"
  unfolding detectAspectRatio_def Let_def by (simp add: tol_eval)

lemma createPaddedImage_size:
  "createPaddedImage b w h = Inr p \<Longrightarrow> p = \<lparr>width = w, height = h\<rparr>"
  by (auto simp: createPaddedImage_def sharp_composite_def Let_def
           split: sum.splits if_splits)

lemma resize_inside_fits:
  assumes "0 < width d" "0 < height d" "0 < w" "0 < h"
  shows "width (sharp_resize_inside d w h) \<le> w"
    and "height (sharp_resize_inside d w h) \<le> h"
    and "width (sharp_resize_inside d w h) = w \<or> height (sharp_resize_inside d w h) = h"
proof -
  show "width (sharp_resize_inside d w h) = w \<or> height (sharp_resize_inside d w h) = h"
    by (simp add: sharp_resize_inside_def)
  show "width (sharp_resize_inside d w h) \<le> w"
  proof (cases "w * height d \<le> h * width d")
    case True
    then show ?thesis by (simp add: sharp_resize_inside_def)
  next
    case False
    then have "2 * (width d * h) + height d < 2 * height d * (w + 1)"
      by (simp add: algebra_simps)
    then have "(2 * (width d * h) + height d) div (2 * height d) < w + 1"
      using assms(2) by (simp add: div_less_iff_less_mult algebra_simps)
    then show ?thesis using False assms(3) by (simp add: sharp_resize_inside_def)
  qed
  show "height (sharp_resize_inside d w h) \<le> h"
  proof (cases "w * height d \<le> h * width d")
    case True
    then have "2 * (height d * w) + width d < 2 * width d * (h + 1)"
      using assms(1) by (simp add: algebra_simps)
    then have "(2 * (height d * w) + width d) div (2 * width d) < h + 1"
      using assms(1) by (simp add: div_less_iff_less_mult algebra_simps)
    then show ?thesis using True assms(4) by (simp add: sharp_resize_inside_def)
  next
    case False
    then show ?thesis by (simp add: sharp_resize_inside_def)
  qed
qed

lemma resize_inside_exact:
  assumes "0 < width d" "0 < w" "0 < h" and "width d * h = height d * w"
  shows "sharp_resize_inside d w h = \<lparr>width = w, height = h\<rparr>"
proof -
  have c: "w * height d \<le> h * width d" using assms(4) by (simp add: mult.commute)
  have e: "2 * (height d * w) + width d = width d + h * (2 * width d)"
    using assms(4) by (simp add: algebra_simps)
  have "(width d + h * (2 * width d)) div (2 * width d) = h + width d div (2 * width d)"
    using assms(1) by (intro div_mult_self1) simp
  also have "width d div (2 * width d) = 0" using assms(1) by simp
  finally have "(2 * (height d * w) + width d) div (2 * width d) = h"
    unfolding e by simp
  then show ?thesis using c assms(3) by (simp add: sharp_resize_inside_def)
qed

section \<open>The three variants\<close>

lemma output_keys:
  "replace_first CHR '':'' CHR ''x'' ''1:1'' = ''1x1''"
  "replace_first CHR '':'' CHR ''x'' ''16:9'' = ''16x9''"
  "replace_first CHR '':'' CHR ''x'' ''9:16'' = ''9x16''"
  by simp_all

lemma process_ratio_Inr:
  assumes "process_ratio b r c t (key, dims) = Inr (k, img)"
  shows "k = replace_first CHR '':'' CHR ''x'' key"
    and "filename img = variant_filename c k t"
    and "r = key \<Longrightarrow> sharp_fit_inside b (width dims) (height dims) = Inr (buffer img)"
    and "r \<noteq> key \<Longrightarrow> buffer img = dims"
proof -
  show "k = replace_first CHR '':'' CHR ''x'' key"
    using assms by (auto simp: process_ratio_def Let_def split: if_splits sum.splits)
  show "filename img = variant_filename c k t"
    using assms by (auto simp: process_ratio_def Let_def split: if_splits sum.splits)
  show "sharp_fit_inside b (width dims) (height dims) = Inr (buffer img)" if "r = key"
    using assms that by (auto simp: process_ratio_def Let_def split: sum.splits)
  show "buffer img = dims" if "r \<noteq> key"
  proof -
    from assms that have "createPaddedImage b (width dims) (height dims) = Inr (buffer img)"
      by (auto simp: process_ratio_def Let_def split: sum.splits)
    from createPaddedImage_size [OF this] show ?thesis by simp
  qed
qed

lemma process_entries_Cons:
  assumes "process_entries b r c t (e # es) acc = Inr res"
  obtains k img where "process_ratio b r c t e = Inr (k, img)"
    and "process_entries b r c t es (obj_set acc k img) = Inr res"
  using assms by (auto split: sum.splits)

lemma processAll_Inr:
  assumes "processAllAspectRatios b c t = Inr r"
  obtains d i1 i2 i3 where "pixels b = Some d"
    and "originalAspectRatio r = detectAspectRatio (width d) (height d)"
    and "processedImages r = [(''1x1'', i1), (''16x9'', i2), (''9x16'', i3)]"
    and "process_ratio b (detectAspectRatio (width d) (height d)) c t
           (''1:1'', \<lparr>width = 1024, height = 1024\<rparr>) = Inr (''1x1'', i1)"
    and "process_ratio b (detectAspectRatio (width d) (height d)) c t
           (''16:9'', \<lparr>width = 1024, height = 576\<rparr>) = Inr (''16x9'', i2)"
    and "process_ratio b (detectAspectRatio (width d) (height d)) c t
           (''9:16'', \<lparr>width = 576, height = 1024\<rparr>) = Inr (''9x16'', i3)"
proof -
  from assms obtain d where px: "pixels b = Some d"
    by (auto simp: processAllAspectRatios_def sharp_metadata_def split: option.splits)
  define ratio where "ratio = detectAspectRatio (width d) (height d)"
  from assms px have orig: "originalAspectRatio r = ratio"
    and entries: "process_entries b ratio c t
                    [(''1:1'', \<lparr>width = 1024, height = 1024\<rparr>),
                     (''16:9'', \<lparr>width = 1024, height = 576\<rparr>),
                     (''9:16'', \<lparr>width = 576, height = 1024\<rparr>)] [] = Inr (processedImages r)"
    by (auto simp: processAllAspectRatios_def sharp_metadata_def ratio_def Let_def
          ASPECT_RATIO_DIMENSIONS_def split: sum.splits)
  from entries obtain k1 i1 where
    p1: "process_ratio b ratio c t (''1:1'', \<lparr>width = 1024, height = 1024\<rparr>) = Inr (k1, i1)"
    and e1: "process_entries b ratio c t
               [(''16:9'', \<lparr>width = 1024, height = 576\<rparr>),
                (''9:16'', \<lparr>width = 576, height = 1024\<rparr>)] (obj_set [] k1 i1)
             = Inr (processedImages r)"
    by (rule process_entries_Cons)
  have k1: "k1 = ''1x1''" using process_ratio_Inr(1) [OF p1] by (simp only: output_keys)
  from e1 obtain k2 i2 where
    p2: "process_ratio b ratio c t (''16:9'', \<lparr>width = 1024, height = 576\<rparr>) = Inr (k2, i2)"
    and e2: "process_entries b ratio c t [(''9:16'', \<lparr>width = 576, height = 1024\<rparr>)]
               (obj_set (obj_set [] k1 i1) k2 i2) = Inr (processedImages r)"
    by (rule process_entries_Cons)
  have k2: "k2 = ''16x9''" using process_ratio_Inr(1) [OF p2] by (simp only: output_keys)
  from e2 obtain k3 i3 where
    p3: "process_ratio b ratio c t (''9:16'', \<lparr>width = 576, height = 1024\<rparr>) = Inr (k3, i3)"
    and e3: "process_entries b ratio c t []
               (obj_set (obj_set (obj_set [] k1 i1) k2 i2) k3 i3) = Inr (processedImages r)"
    by (rule process_entries_Cons)
  have k3: "k3 = ''9x16''" using process_ratio_Inr(1) [OF p3] by (simp only: output_keys)
  have imgs: "processedImages r = [(''1x1'', i1), (''16x9'', i2), (''9x16'', i3)]"
    using e3 by (simp add: k1 k2 k3)
  show thesis
    using that [OF px orig [unfolded ratio_def] imgs p1 [unfolded k1 ratio_def]
                p2 [unfolded k2 ratio_def] p3 [unfolded k3 ratio_def]] .
qed

lemma string_of_nat_numeral:
  "string_of_nat (numeral k) =
     (if numeral k < (10::nat) then [''0123456789'' ! numeral k]
      else string_of_nat (numeral k div 10) @ [''0123456789'' ! (numeral k mod 10)])"
  by (rule string_of_nat.simps)

lemma string_of_nat_small:
  "string_of_nat 0 = ''0''" "string_of_nat 1 = ''1''" "string_of_nat (Suc 0) = ''1''"
  by (subst string_of_nat.simps, simp)+

lemma padded_hd_square:
  "createPaddedImage hd_buffer 1024 1024 = Inr \<lparr>width = 1024, height = 1024\<rparr>"
  by (simp add: createPaddedImage_def hd_buffer_def sharp_metadata_def layout_1920_1080_square
        sharp_resize_def sharp_composite_def)

lemma padded_hd_portrait:
  "createPaddedImage hd_buffer 576 1024 = Inr \<lparr>width = 576, height = 1024\<rparr>"
  by (simp add: createPaddedImage_def hd_buffer_def sharp_metadata_def layout_1920_1080_portrait
        sharp_resize_def sharp_composite_def)

lemma padded_near_square_landscape:
  "createPaddedImage near_square_buffer 1024 576 = Inr \<lparr>width = 1024, height = 576\<rparr>"
  by (simp add: createPaddedImage_def near_square_buffer_def sharp_metadata_def
        layout_512_500_landscape sharp_resize_def sharp_composite_def)

lemma padded_near_square_portrait:
  "createPaddedImage near_square_buffer 576 1024 = Inr \<lparr>width = 576, height = 1024\<rparr>"
  by (simp add: createPaddedImage_def near_square_buffer_def sharp_metadata_def
        layout_512_500_portrait sharp_resize_def sharp_composite_def)

lemma run_hd:
  "processAllAspectRatios hd_buffer c t =
     Inr \<lparr>originalAspectRatio = ''16:9'',
          processedImages =
            [(''1x1'', \<lparr>buffer = \<lparr>width = 1024, height = 1024\<rparr>,
                         filename = variant_filename c ''1x1'' t\<rparr>),
             (''16x9'', \<lparr>buffer = \<lparr>width = 1024, height = 576\<rparr>,
                          filename = variant_filename c ''16x9'' t\<rparr>),
             (''9x16'', \<lparr>buffer = \<lparr>width = 576, height = 1024\<rparr>,
                          filename = variant_filename c ''9x16'' t\<rparr>)]\<rparr>"
proof -
  have m: "sharp_metadata hd_buffer = Inr \<lparr>width = 1920, height = 1080\<rparr>"
    by (simp add: sharp_metadata_def hd_buffer_def)
  have f: "sharp_fit_inside hd_buffer 1024 576 = Inr \<lparr>width = 1024, height = 576\<rparr>"
    by (simp add: sharp_fit_inside_def m sharp_resize_inside_def)
  show ?thesis
    by (simp add: processAllAspectRatios_def m detect_1920_1080 ASPECT_RATIO_DIMENSIONS_def
          process_ratio_def f padded_hd_square padded_hd_portrait Let_def)
qed

lemma run_near_square:
  "processAllAspectRatios near_square_buffer c t =
     Inr \<lparr>originalAspectRatio = ''1:1'',
          processedImages =
            [(''1x1'', \<lparr>buffer = \<lparr>width = 1024, height = 1000\<rparr>,
                         filename = variant_filename c ''1x1'' t\<rparr>),
             (''16x9'', \<lparr>buffer = \<lparr>width = 1024, height = 576\<rparr>,
                          filename = variant_filename c ''16x9'' t\<rparr>),
             (''9x16'', \<lparr>buffer = \<lparr>width = 576, height = 1024\<rparr>,
                          filename = variant_filename c ''9x16'' t\<rparr>)]\<rparr>"
proof -
  have m: "sharp_metadata near_square_buffer = Inr \<lparr>width = 512, height = 500\<rparr>"
    by (simp add: sharp_metadata_def near_square_buffer_def)
  have f: "sharp_fit_inside near_square_buffer 1024 1024 = Inr \<lparr>width = 1024, height = 1000\<rparr>"
    by (simp add: sharp_fit_inside_def m sharp_resize_inside_def)
  show ?thesis
    by (simp add: processAllAspectRatios_def m detect_512_500 ASPECT_RATIO_DIMENSIONS_def
          process_ratio_def f padded_near_square_landscape padded_near_square_portrait Let_def)
qed

lemma pair_map_zip:
  "map (\<lambda>(k, img). (k, f img)) xs = zip (map fst xs) (map (\<lambda>(k, img). f img) xs)"
  by (induction xs) auto

lemma filenames_distinct:
  "distinct [variant_filename c ''1x1'' t, variant_filename c ''16x9'' t,
             variant_filename c ''9x16'' t]"
  by (simp add: variant_filename_def)

text \<open>
  C10. A successful run of \<open>processAllAspectRatios\<close> produces exactly three variants,
  under the keys \<open>1x1\<close>, \<open>16x9\<close> and \<open>9x16\<close> in this order; the filename of each is
  \<open>characters/<characterId>/aspect-ratios/<key>-<timestamp>.jpg\<close> with the one timestamp
  of the run, and the three filenames are pairwise distinct.
\<close>

theorem processed_variants_named:
  assumes "processAllAspectRatios b c t = Inr r"
  shows "map fst (processedImages r) = [''1x1'', ''16x9'', ''9x16'']
         \<and> map (\<lambda>(k, img). filename img) (processedImages r)
             = map (\<lambda>k. ''characters/'' @ c @ ''/aspect-ratios/'' @ k @ ''-''
                          @ string_of_nat t @ ''.jpg'') [''1x1'', ''16x9'', ''9x16'']
         \<and> distinct (map (\<lambda>(k, img). filename img) (processedImages r))"
proof -
  from assms obtain d i1 i2 i3 where "pixels b = Some d"
    and "originalAspectRatio r = detectAspectRatio (width d) (height d)"
    and imgs: "processedImages r = [(''1x1'', i1), (''16x9'', i2), (''9x16'', i3)]"
    and p1: "process_ratio b (detectAspectRatio (width d) (height d)) c t
               (''1:1'', \<lparr>width = 1024, height = 1024\<rparr>) = Inr (''1x1'', i1)"
    and p2: "process_ratio b (detectAspectRatio (width d) (height d)) c t
               (''16:9'', \<lparr>width = 1024, height = 576\<rparr>) = Inr (''16x9'', i2)"
    and p3: "process_ratio b (detectAspectRatio (width d) (height d)) c t
               (''9:16'', \<lparr>width = 576, height = 1024\<rparr>) = Inr (''9x16'', i3)"
    by (rule processAll_Inr)
  have f1: "filename i1 = variant_filename c ''1x1'' t" by (rule process_ratio_Inr(2) [OF p1])
  have f2: "filename i2 = variant_filename c ''16x9'' t" by (rule process_ratio_Inr(2) [OF p2])
  have f3: "filename i3 = variant_filename c ''9x16'' t" by (rule process_ratio_Inr(2) [OF p3])
  have names: "map (\<lambda>(k, img). filename img) (processedImages r)
                 = [variant_filename c ''1x1'' t, variant_filename c ''16x9'' t,
                    variant_filename c ''9x16'' t]"
    by (simp add: imgs f1 f2 f3)
  show ?thesis
  proof (intro conjI)
    show "map fst (processedImages r) = [''1x1'', ''16x9'', ''9x16'']" by (simp add: imgs)
    show "map (\<lambda>(k, img). filename img) (processedImages r)
            = map (\<lambda>k. ''characters/'' @ c @ ''/aspect-ratios/'' @ k @ ''-''
                         @ string_of_nat t @ ''.jpg'') [''1x1'', ''16x9'', ''9x16'']"
      unfolding names by (simp add: variant_filename_def)
    show "distinct (map (\<lambda>(k, img). filename img) (processedImages r))"
      unfolding names by (rule filenames_distinct)
  qed
qed

theorem processed_variants_named_witness:
  "variant_filenames (processAllAspectRatios hd_buffer ''abc'' 1700000000000)
     = Some [(''1x1'', ''characters/abc/aspect-ratios/1x1-1700000000000.jpg''),
             (''16x9'', ''characters/abc/aspect-ratios/16x9-1700000000000.jpg''),
             (''9x16'', ''characters/abc/aspect-ratios/9x16-1700000000000.jpg'')]"
proof -
  obtain r where run: "processAllAspectRatios hd_buffer ''abc'' 1700000000000 = Inr r"
    by (simp add: run_hd)
  have ts: "string_of_nat 1700000000000 = ''1700000000000''"
    by (simp add: string_of_nat_numeral string_of_nat_small)
  from processed_variants_named [OF run]
  have keys: "map fst (processedImages r) = [''1x1'', ''16x9'', ''9x16'']"
    and names: "map (\<lambda>(k, img). filename img) (processedImages r)
                  = [''characters/abc/aspect-ratios/1x1-1700000000000.jpg'',
                     ''characters/abc/aspect-ratios/16x9-1700000000000.jpg'',
                     ''characters/abc/aspect-ratios/9x16-1700000000000.jpg'']"
    by (simp_all add: ts)
  have "map (\<lambda>(k, img). (k, filename img)) (processedImages r)
          = zip (map fst (processedImages r)) (map (\<lambda>(k, img). filename img) (processedImages r))"
    by (rule pair_map_zip)
  then show ?thesis unfolding keys names by (simp add: variant_filenames_def run)
qed

text \<open>
  C1, as stated, fails: a source of 512 by 500 pixels is classified \<open>1:1\<close>, and its
  \<open>1x1\<close> variant, resized to fit inside 1024 by 1024, is 1024 by 1000 pixels.
\<close>

theorem same_ratio_variant_counterexample:
  "variant_sizes (processAllAspectRatios near_square_buffer ''abc'' 1700000000000)
     = Some [(''1x1'', \<lparr>width = 1024, height = 1000\<rparr>),
             (''16x9'', \<lparr>width = 1024, height = 576\<rparr>),
             (''9x16'', \<lparr>width = 576, height = 1024\<rparr>)]"
  by (simp add: variant_sizes_def run_near_square)

text \<open>
  C1, amended. In a successful run, for each of the three target sizes: on the cross-ratio
  path (the source is not classified as this target's ratio) the variant has exactly the
  target's width and height; on the same-ratio path neither side of the variant exceeds the
  target's, at least one side equals it, and the variant has exactly the target's size
  when the source has exactly the target's ratio.
\<close>

theorem variant_size_by_path:
  assumes run: "processAllAspectRatios b c t = Inr r"
    and px: "pixels b = Some d" and pos: "0 < width d" "0 < height d"
    and entry: "(ratioKey, target) \<in> set ASPECT_RATIO_DIMENSIONS"
  shows "\<exists>img. map_of (processedImages r) (replace_first CHR '':'' CHR ''x'' ratioKey) = Some img
           \<and> (detectAspectRatio (width d) (height d) \<noteq> ratioKey \<longrightarrow> buffer img = target)
           \<and> (detectAspectRatio (width d) (height d) = ratioKey \<longrightarrow>
                 width (buffer img) \<le> width target \<and> height (buffer img) \<le> height target
                 \<and> (width (buffer img) = width target \<or> height (buffer img) = height target)
                 \<and> (width d * height target = height d * width target \<longrightarrow> buffer img = target))"
proof -
  from run obtain d' i1 i2 i3 where px': "pixels b = Some d'"
    and "originalAspectRatio r = detectAspectRatio (width d') (height d')"
    and imgs: "processedImages r = [(''1x1'', i1), (''16x9'', i2), (''9x16'', i3)]"
    and p1: "process_ratio b (detectAspectRatio (width d') (height d')) c t
               (''1:1'', \<lparr>width = 1024, height = 1024\<rparr>) = Inr (''1x1'', i1)"
    and p2: "process_ratio b (detectAspectRatio (width d') (height d')) c t
               (''16:9'', \<lparr>width = 1024, height = 576\<rparr>) = Inr (''16x9'', i2)"
    and p3: "process_ratio b (detectAspectRatio (width d') (height d')) c t
               (''9:16'', \<lparr>width = 576, height = 1024\<rparr>) = Inr (''9x16'', i3)"
    by (rule processAll_Inr)
  from px px' have dd: "d' = d" by simp
  define ratio where "ratio = detectAspectRatio (width d) (height d)"
  have variant: "(ratio \<noteq> key \<longrightarrow> buffer img = dims)
           \<and> (ratio = key \<longrightarrow>
                 width (buffer img) \<le> width dims \<and> height (buffer img) \<le> height dims
                 \<and> (width (buffer img) = width dims \<or> height (buffer img) = height dims)
                 \<and> (width d * height dims = height d * width dims \<longrightarrow> buffer img = dims))"
    if p: "process_ratio b ratio c t (key, dims) = Inr (k, img)"
      and tpos: "0 < width dims" "0 < height dims"
    for key dims k img
  proof (cases "ratio = key")
    case False
    then show ?thesis using process_ratio_Inr(4) [OF p] by simp
  next
    case True
    from process_ratio_Inr(3) [OF p True]
    have fit: "buffer img = sharp_resize_inside d (width dims) (height dims)"
      by (simp add: sharp_fit_inside_def sharp_metadata_def px)
    have "width d * height dims = height d * width dims \<longrightarrow> buffer img = dims"
      using resize_inside_exact [OF pos(1) tpos, of ] unfolding fit by simp
    then show ?thesis
      using True resize_inside_fits [OF pos tpos] unfolding fit by simp
  qed
  from entry consider
      "ratioKey = ''1:1''" "target = \<lparr>width = 1024, height = 1024\<rparr>"
    | "ratioKey = ''16:9''" "target = \<lparr>width = 1024, height = 576\<rparr>"
    | "ratioKey = ''9:16''" "target = \<lparr>width = 576, height = 1024\<rparr>"
    by (auto simp: ASPECT_RATIO_DIMENSIONS_def)
  then show ?thesis
  proof cases
    case 1
    have "map_of (processedImages r) (replace_first CHR '':'' CHR ''x'' ratioKey) = Some i1"
      by (simp add: imgs 1)
    moreover have "(ratio \<noteq> ratioKey \<longrightarrow> buffer i1 = target)
           \<and> (ratio = ratioKey \<longrightarrow>
                 width (buffer i1) \<le> width target \<and> height (buffer i1) \<le> height target
                 \<and> (width (buffer i1) = width target \<or> height (buffer i1) = height target)
                 \<and> (width d * height target = height d * width target \<longrightarrow> buffer i1 = target))"
      unfolding 1 by (rule variant [OF p1 [unfolded dd, folded ratio_def]]) simp_all
    ultimately show ?thesis unfolding ratio_def by blast
  next
    case 2
    have "map_of (processedImages r) (replace_first CHR '':'' CHR ''x'' ratioKey) = Some i2"
      by (simp add: imgs 2)
    moreover have "(ratio \<noteq> ratioKey \<longrightarrow> buffer i2 = target)
           \<and> (ratio = ratioKey \<longrightarrow>
                 width (buffer i2) \<le> width target \<and> height (buffer i2) \<le> height target
                 \<and> (width (buffer i2) = width target \<or> height (buffer i2) = height target)
                 \<and> (width d * height target = height d * width target \<longrightarrow> buffer i2 = target))"
      unfolding 2 by (rule variant [OF p2 [unfolded dd, folded ratio_def]]) simp_all
    ultimately show ?thesis unfolding ratio_def by blast
  next
    case 3
    have "map_of (processedImages r) (replace_first CHR '':'' CHR ''x'' ratioKey) = Some i3"
      by (simp add: imgs 3)
    moreover have "(ratio \<noteq> ratioKey \<longrightarrow> buffer i3 = target)
           \<and> (ratio = ratioKey \<longrightarrow>
                 width (buffer i3) \<le> width target \<and> height (buffer i3) \<le> height target
                 \<and> (width (buffer i3) = width target \<or> height (buffer i3) = height target)
                 \<and> (width d * height target = height d * width target \<longrightarrow> buffer i3 = target))"
      unfolding 3 by (rule variant [OF p3 [unfolded dd, folded ratio_def]]) simp_all
    ultimately show ?thesis unfolding ratio_def by blast
  qed
qed

theorem variant_size_by_path_witness:
  "case processAllAspectRatios hd_buffer ''abc'' 1700000000000 of
     Inl e \<Rightarrow> False
   | Inr r \<Rightarrow>
       (\<exists>img. map_of (processedImages r) ''1x1'' = Some img
          \<and> buffer img = \<lparr>width = 1024, height = 1024\<rparr>)
       \<and> (\<exists>img. map_of (processedImages r) ''16x9'' = Some img
          \<and> buffer img = \<lparr>width = 1024, height = 576\<rparr>)"
proof -
  obtain r where run: "processAllAspectRatios hd_buffer ''abc'' 1700000000000 = Inr r"
    by (simp add: run_hd)
  have px: "pixels hd_buffer = Some \<lparr>width = 1920, height = 1080\<rparr>"
    by (simp add: hd_buffer_def)
  have e1: "(''1:1'', \<lparr>width = 1024, height = 1024\<rparr>) \<in> set ASPECT_RATIO_DIMENSIONS"
    and e2: "(''16:9'', \<lparr>width = 1024, height = 576\<rparr>) \<in> set ASPECT_RATIO_DIMENSIONS"
    by (simp_all add: ASPECT_RATIO_DIMENSIONS_def)
  from variant_size_by_path [OF run px _ _ e1]
  have "\<exists>img. map_of (processedImages r) ''1x1'' = Some img
          \<and> buffer img = \<lparr>width = 1024, height = 1024\<rparr>"
    by (simp add: detect_1920_1080)
  moreover from variant_size_by_path [OF run px _ _ e2]
  have "\<exists>img. map_of (processedImages r) ''16x9'' = Some img
          \<and> buffer img = \<lparr>width = 1024, height = 576\<rparr>"
    by (auto simp: detect_1920_1080)
  ultimately show ?thesis by (simp add: run)
qed

section \<open>Signatures\<close>

lemma unhex_hex_digits: "\<forall>n \<in> set [0..<16]. unhex (hex_digit n) = Some n"
  by code_simp

lemma unhex_hex_digit: "n < 16 \<Longrightarrow> unhex (hex_digit n) = Some n"
proof -
  assume "n < 16"
  then have "n \<in> set [0..<16]" by simp
  with unhex_hex_digits show ?thesis by blast
qed

lemma byte_nibbles:
  fixes b :: byte
  shows "unat b div 16 < 16" and "unat b mod 16 < 16"
    and "of_nat (16 * (unat b div 16) + unat b mod 16) = b"
proof -
  have "unat b < 2 ^ LENGTH(8)" by (rule unsigned_less)
  then show "unat b div 16 < 16" by simp
  show "unat b mod 16 < 16" by simp
  have "16 * (unat b div 16) + unat b mod 16 = unat b" by simp
  then show "of_nat (16 * (unat b div 16) + unat b mod 16) = b" by simp
qed

lemma hex_decode_encode_append: "hex_decode (hex_encode bs @ rest) = bs @ hex_decode rest"
proof (induction bs)
  case Nil
  then show ?case by (simp add: hex_encode_def)
next
  case (Cons b bs)
  have "hex_encode (b # bs) = hex_digit (unat b div 16) # hex_digit (unat b mod 16) # hex_encode bs"
    by (simp add: hex_encode_def)
  then show ?case
    using Cons.IH by (simp add: unhex_hex_digit byte_nibbles)
qed

lemma hex_decode_encode: "hex_decode (hex_encode bs) = bs"
  using hex_decode_encode_append [of bs "[]"] by simp

lemma strip_generated: "strip_sha256_prefix (''sha256='' @ h) = h"
  by (simp add: strip_sha256_prefix_def)

lemma verify_present:
  assumes "p \<noteq> []" "s \<noteq> []" "k \<noteq> []"
  shows "verifyWebhookSignature (Some p) (Some s) (Some k) \<longleftrightarrow>
           hex_decode (strip_sha256_prefix s) = hmac_sha256 (utf8 k) (utf8 p)"
  using assms
  by (auto simp: verifyWebhookSignature_def timingSafeEqual_def hex_decode_encode Let_def)

lemma generated_nonempty: "generateWebhookSignature p k \<noteq> []"
  by (simp add: generateWebhookSignature_def)

lemma verify_generated:
  assumes "p \<noteq> []" "k \<noteq> []"
  shows "verifyWebhookSignature (Some p) (Some (generateWebhookSignature p' k')) (Some k) \<longleftrightarrow>
           hmac_sha256 (utf8 k') (utf8 p') = hmac_sha256 (utf8 k) (utf8 p)"
proof -
  have "strip_sha256_prefix (generateWebhookSignature p' k')
          = hex_encode (hmac_sha256 (utf8 k') (utf8 p'))"
    unfolding generateWebhookSignature_def by (rule strip_generated)
  then show ?thesis
    unfolding verify_present [OF assms(1) generated_nonempty assms(2)]
    by (simp add: hex_decode_encode)
qed

lemma example_tag:
  "hex_encode (hmac_sha256 (utf8 ''whsec'') (utf8 example_body))
     = ''11f2361327f2774539f4226658a3d018b2df2fd9bbe3d1aedc31e5e5b7a7ae74''"
  by code_simp



lemma example_body_nonempty: "example_body \<noteq> []"
  by (simp add: example_body_def)


lemma example_signature_generated:
  "example_signature = generateWebhookSignature example_body ''whsec''"
  by (simp add: example_signature_def generateWebhookSignature_def example_tag)







lemma length_round256: "length s = 8 \<Longrightarrow> length (round256 s kw) = 8"
  by (cases kw) (auto simp: eval_nat_numeral length_Suc_conv Let_def)

lemma length_foldl_round256: "length s = 8 \<Longrightarrow> length (foldl round256 s kws) = 8"
  by (induction kws arbitrary: s) (simp_all add: length_round256)

lemma length_compress: "length s = 8 \<Longrightarrow> length (compress s block) = 8"
  by (simp add: compress_def length_foldl_round256)

lemma length_foldl_compress: "length s = 8 \<Longrightarrow> length (foldl compress s bs) = 8"
  by (induction bs arbitrary: s) (simp_all add: length_compress)

lemma length_word_bytes: "length (concat (map word_bytes ws)) = 4 * length ws"
  by (induction ws) (simp_all add: word_bytes_def)

lemma length_sha256: "length (sha256 m) = 32"
  by (simp add: sha256_def Let_def length_word_bytes length_foldl_compress H256_def)

lemma length_hmac_sha256: "length (hmac_sha256 k m) = 32"
  by (simp add: hmac_sha256_def Let_def length_sha256)

lemma verify_falsy:
  "falsy payload \<or> falsy signature \<or> falsy secret
     \<Longrightarrow> \<not> verifyWebhookSignature payload signature secret"
  by (auto simp: falsy_def verifyWebhookSignature_def split: option.splits)

text \<open>
  C8, amended. The verifier answers \<open>false\<close> when the payload, the signature or the
  secret is missing or empty, when the hexadecimal digits at the start of the presented
  signature (after the prefix) decode to other than 32 bytes, and when they decode to bytes
  other than the expected tag. It throws in no case: its result is a truth value.
\<close>

theorem verify_rejects:
  "(falsy payload \<or> falsy signature \<or> falsy secret
      \<longrightarrow> \<not> verifyWebhookSignature payload signature secret)
   \<and> (length (hex_decode (strip_sha256_prefix s)) \<noteq> 32
      \<longrightarrow> \<not> verifyWebhookSignature (Some p) (Some s) (Some k))
   \<and> (hex_decode (strip_sha256_prefix s) \<noteq> hmac_sha256 (utf8 k) (utf8 p)
      \<longrightarrow> \<not> verifyWebhookSignature (Some p) (Some s) (Some k))"
proof (intro conjI impI)
  show "\<not> verifyWebhookSignature payload signature secret"
    if "falsy payload \<or> falsy signature \<or> falsy secret"
    using that by (rule verify_falsy)
  have present: "\<not> verifyWebhookSignature (Some p) (Some s) (Some k)"
    if "hex_decode (strip_sha256_prefix s) \<noteq> hmac_sha256 (utf8 k) (utf8 p)"
  proof (cases "p = [] \<or> s = [] \<or> k = []")
    case True
    then show ?thesis by (intro verify_falsy) (auto simp: falsy_def)
  next
    case False
    then show ?thesis using that by (simp add: verify_present)
  qed
  show "\<not> verifyWebhookSignature (Some p) (Some s) (Some k)"
    if "hex_decode (strip_sha256_prefix s) \<noteq> hmac_sha256 (utf8 k) (utf8 p)"
    using that by (rule present)
  show "\<not> verifyWebhookSignature (Some p) (Some s) (Some k)"
    if "length (hex_decode (strip_sha256_prefix s)) \<noteq> 32"
    using that length_hmac_sha256 [of "utf8 k" "utf8 p"] by (intro present) auto
qed

theorem verify_rejects_witness:
  "falsy None \<and> \<not> verifyWebhookSignature None (Some ''sha256=00'') (Some ''k'')
   \<and> length (hex_decode (strip_sha256_prefix ''sha256=0fzz'')) \<noteq> 32
   \<and> \<not> verifyWebhookSignature (Some ''a'') (Some ''sha256=0fzz'') (Some ''k'')"
proof -
  have f: "falsy None" by (simp add: falsy_def)
  have l: "length (hex_decode (strip_sha256_prefix ''sha256=0fzz'')) \<noteq> 32"
    by (simp add: strip_sha256_prefix_def unhex_def)
  from verify_rejects [of None "Some ''sha256=00''" "Some ''k''" "''sha256=0fzz''" "''a''" "''k''"] f l
  show ?thesis by blast
qed

text \<open>
  C8, as stated, fails: a presented signature that is the 64 hexadecimal digits of the
  expected tag followed by \<open>zz\<close> is not well-formed hexadecimal of the expected length, and
  the verifier accepts it.
\<close>

theorem verify_trailing_garbage_counterexample:
  "verifyWebhookSignature (Some example_body) (Some (example_signature @ ''zz''))
     (Some ''whsec'')"
proof -
  define tag where "tag = hmac_sha256 (utf8 ''whsec'') (utf8 example_body)"
  have presented: "example_signature @ ''zz'' = ''sha256='' @ hex_encode tag @ ''zz''"
    by (simp add: example_signature_generated generateWebhookSignature_def tag_def)
  have "hex_decode ''zz'' = []" by (simp add: unhex_def)
  then have decoded: "hex_decode (strip_sha256_prefix (''sha256='' @ hex_encode tag @ ''zz'')) = tag"
    unfolding strip_generated hex_decode_encode_append by simp
  have "''sha256='' @ hex_encode tag @ ''zz'' \<noteq> []" by simp
  then have "verifyWebhookSignature (Some example_body)
               (Some (''sha256='' @ hex_encode tag @ ''zz'')) (Some ''whsec'')"
    using decoded example_body_nonempty by (simp add: verify_present tag_def)
  then show ?thesis unfolding presented .
qed

section \<open>Steps of the handler\<close>

lemma andThen_Value:
  "m = (evs, Value a) \<Longrightarrow> andThen m f = (evs @ fst (f a), snd (f a))"
  by (simp add: andThen_def split: prod.splits)

lemma andThen_cases [consumes 1, case_names throw return go]:
  assumes "andThen m f = (evs, out)"
  obtains (throw) msg where "m = (evs, Throw msg)" "out = Throw msg"
    | (return) r where "m = (evs, Return r)" "out = Return r"
    | (go) a evs1 evs2 where "m = (evs1, Value a)" "f a = (evs2, out)" "evs = evs1 @ evs2"
  using assms
  by (cases m; cases "snd m") (auto simp: andThen_def split: prod.splits)

lemma status_step:
  assumes "updateAspectRatioStatus e cid st msg = (evs, out)"
  shows "(out = Value () \<and> supabase_configured e \<and> update_status_error e cid st msg = None
            \<and> evs = [StatusWritten cid st (if falsy msg then None else msg)])
         \<or> ((\<exists>m. out = Throw m) \<and> evs = []
             \<and> \<not> (supabase_configured e \<and> update_status_error e cid st msg = None))"
  using assms by (auto simp: updateAspectRatioStatus_def split: if_splits option.splits)

lemma status_accepted:
  "supabase_configured e \<Longrightarrow> update_status_error e cid st msg = None \<Longrightarrow>
     updateAspectRatioStatus e cid st msg
       = ([StatusWritten cid st (if falsy msg then None else msg)], Value ())"
  by (simp add: updateAspectRatioStatus_def)

lemma recorded_append:
  "recorded (evs @ [StatusWritten cid st m]) = Some (st, m)"
  by (induction evs) simp_all

lemma recorded_no_status:
  "\<forall>ev \<in> set evs'. \<exists>f. ev = FileStored f \<Longrightarrow> recorded (evs @ evs') = recorded evs"
proof (induction evs)
  case Nil
  then show ?case by (induction evs') auto
next
  case (Cons a evs)
  then show ?case by simp
qed

lemma acquire_shape:
  assumes "acquire e p = (evs, out)"
  shows "\<forall>ev \<in> set evs. \<exists>s m. ev = StatusWritten (job_characterId p) s m"
    and "out = Return r \<Longrightarrow>
           (\<exists>cause. cause \<noteq> [] \<and> evs \<noteq> []
               \<and> last evs = StatusWritten (job_characterId p) ''failed'' (Some cause))
           \<and> (\<exists>msg code. json r = ErrorResponse msg code)"
    and "out = Value a \<Longrightarrow>
           supabase_configured e \<and> evs = [StatusWritten (job_characterId p) ''processing'' None]"
proof -
  show "\<forall>ev \<in> set evs. \<exists>s m. ev = StatusWritten (job_characterId p) s m"
    using assms
    by (auto simp: acquire_def andThen_def updateAspectRatioStatus_def getCharacterById_def
          downloadImage_def getImageMetadata_def
        split: if_splits option.splits sum.splits prod.splits outcome.splits)
  show "(\<exists>cause. cause \<noteq> [] \<and> evs \<noteq> []
               \<and> last evs = StatusWritten (job_characterId p) ''failed'' (Some cause))
           \<and> (\<exists>msg code. json r = ErrorResponse msg code)" if "out = Return r"
    using assms that
    by (auto simp: acquire_def andThen_def updateAspectRatioStatus_def getCharacterById_def
          downloadImage_def getImageMetadata_def falsy_def createErrorResponse_def
        split: if_splits option.splits sum.splits prod.splits outcome.splits)
  show "supabase_configured e \<and> evs = [StatusWritten (job_characterId p) ''processing'' None]"
    if "out = Value a"
    using assms that
    by (auto simp: acquire_def andThen_def updateAspectRatioStatus_def getCharacterById_def
          downloadImage_def getImageMetadata_def falsy_def
        split: if_splits option.splits sum.splits prod.splits outcome.splits)
qed

lemma upload_step_events:
  "fst (uploadImageToStorage e f)
     = (if supabase_configured e \<and> upload_error e f = None then [FileStored f] else [])"
  by (simp add: uploadImageToStorage_def split: option.splits)

lemma settled_events:
  "ev \<in> set (concat (map snd (settled_uploads e images))) \<longleftrightarrow>
     (\<exists>k img. (k, img) \<in> set images \<and> supabase_configured e
        \<and> upload_error e (filename img) = None \<and> ev = FileStored (filename img))"
proof -
  have "set (settled_uploads e images)
          = (\<lambda>(k, img). (upload_settled e (filename img),
                           fst (uploadImageToStorage e (filename img)))) ` set images"
    by (simp add: settled_uploads_def)
  then show ?thesis
    by (auto simp: upload_step_events split: if_splits prod.splits) force+
qed

lemma filtered_events:
  "ev \<in> set (concat (map snd (filter P us))) \<Longrightarrow> ev \<in> set (concat (map snd us))"
  by (induction us) (auto split: if_splits)

lemma split_events:
  "ev \<in> set (concat (map snd us)) \<Longrightarrow>
     ev \<in> set (concat (map snd (filter P us)))
       \<or> ev \<in> set (concat (map snd (filter (\<lambda>u. \<not> P u) us)))"
  by (induction us) (auto split: if_splits)

lemma delayed_events:
  "concat (map snd (map (\<lambda>(t, evs). (t - c, evs)) us)) = concat (map snd us)"
  by (induction us) auto

lemma delayed_filter_events:
  "ev \<in> set (concat (map snd (filter P (map (\<lambda>(t, evs). (t - c, evs)) us))))
     \<Longrightarrow> ev \<in> set (concat (map snd us))"
proof (induction us)
  case Nil
  then show ?case by simp
next
  case (Cons u us)
  obtain t evs where u: "u = (t, evs)" by (cases u)
  from Cons.prems
  have "ev \<in> set evs
        \<or> ev \<in> set (concat (map snd (filter P (map (\<lambda>(t, evs). (t - c, evs)) us))))"
    by (cases "P (t - c, evs)") (simp_all add: u)
  then show ?case
  proof
    assume "ev \<in> set evs"
    then show ?thesis by (simp add: u)
  next
    assume "ev \<in> set (concat (map snd (filter P (map (\<lambda>(t, evs). (t - c, evs)) us))))"
    then have "ev \<in> set (concat (map snd us))" by (rule Cons.IH)
    then show ?thesis by simp
  qed
qed

lemma upload_events:
  assumes "ev \<in> set (fst (upload_all e images))"
  shows "\<exists>k img. (k, img) \<in> set images \<and> supabase_configured e
           \<and> upload_error e (filename img) = None \<and> ev = FileStored (filename img)"
proof -
  have "ev \<in> set (concat (map snd (settled_uploads e images)))"
  proof (cases "rejections e images")
    case Nil
    with assms show ?thesis by (simp add: upload_all_def)
  next
    case (Cons r rs)
    with assms have "ev \<in> set (concat (map snd
        (filter (\<lambda>u. fst u < fst (earliest r rs)) (settled_uploads e images))))"
      by (simp add: upload_all_def)
    then show ?thesis by (rule filtered_events)
  qed
  then show ?thesis by (simp only: settled_events)
qed

lemma in_flight_events:
  assumes "ev \<in> set (concat (map snd (filter P (in_flight e images))))"
  shows "\<exists>k img. (k, img) \<in> set images \<and> supabase_configured e
           \<and> upload_error e (filename img) = None \<and> ev = FileStored (filename img)"
proof -
  have "ev \<in> set (concat (map snd (settled_uploads e images)))"
  proof (cases "rejections e images")
    case Nil
    with assms show ?thesis by (simp add: in_flight_def)
  next
    case (Cons r rs)
    with assms have "ev \<in> set (concat (map snd
        (filter (\<lambda>u. fst (earliest r rs) \<le> fst u) (settled_uploads e images))))"
      unfolding in_flight_def by (auto dest!: delayed_filter_events)
    then show ?thesis by (rule filtered_events)
  qed
  then show ?thesis by (simp only: settled_events)
qed

lemma stored_eventually:
  assumes "(k, img) \<in> set images" and "supabase_configured e"
    and "upload_error e (filename img) = None"
  shows "FileStored (filename img) \<in> set (fst (upload_all e images))
         \<or> FileStored (filename img) \<in> set (concat (map snd (in_flight e images)))"
proof -
  have all: "FileStored (filename img) \<in> set (concat (map snd (settled_uploads e images)))"
    unfolding settled_events using assms by blast
  show ?thesis
  proof (cases "rejections e images")
    case Nil
    with all show ?thesis by (simp add: upload_all_def)
  next
    case (Cons r rs)
    have not: "(\<lambda>u. \<not> fst u < fst (earliest r rs)) = (\<lambda>u. fst (earliest r rs) \<le> fst u)"
      by (simp add: fun_eq_iff not_less)
    from split_events [OF all, of "\<lambda>u. fst u < fst (earliest r rs)"]
    show ?thesis
      unfolding not by (simp add: upload_all_def in_flight_def Cons delayed_events)
  qed
qed

lemma rejections_Cons:
  "rejections e ((k, img) # images) =
     (case snd (uploadImageToStorage e (filename img)) of
        Throw m \<Rightarrow> (upload_settled e (filename img), m) # rejections e images
      | _ \<Rightarrow> rejections e images)"
  by (simp add: rejections_def split: outcome.splits)

lemma rejections_mem:
  assumes "supabase_configured e"
  shows "x \<in> set (rejections e images) \<longleftrightarrow>
           (\<exists>k img m. (k, img) \<in> set images \<and> upload_error e (filename img) = Some m
              \<and> x = (upload_settled e (filename img), ''Storage upload failed: '' @ m))"
proof (induction images)
  case Nil
  then show ?case by (simp add: rejections_def)
next
  case (Cons a images)
  obtain k img where a: "a = (k, img)" by (cases a)
  show ?case
  proof (cases "upload_error e (filename img)")
    case None
    then have "rejections e (a # images) = rejections e images"
      using assms by (simp add: a rejections_Cons uploadImageToStorage_def)
    then show ?thesis using Cons.IH None by (auto simp: a)
  next
    case (Some m)
    then have "rejections e (a # images)
                 = (upload_settled e (filename img), ''Storage upload failed: '' @ m)
                     # rejections e images"
      using assms by (simp add: a rejections_Cons uploadImageToStorage_def)
    then show ?thesis using Cons.IH Some by (auto simp: a)
  qed
qed



lemma earliest_mem: "earliest r rs \<in> set (r # rs)"
  by (induction r rs rule: earliest.induct) auto

lemma upload_all_outcome:
  assumes "supabase_configured e"
  shows "(\<exists>(k, img) \<in> set images. upload_error e (filename img) \<noteq> None) \<Longrightarrow>
           \<exists>k img m. (k, img) \<in> set images \<and> upload_error e (filename img) = Some m
             \<and> snd (upload_all e images) = Throw (''Storage upload failed: '' @ m)"
    and "\<not> (\<exists>(k, img) \<in> set images. upload_error e (filename img) \<noteq> None) \<Longrightarrow>
           \<exists>urls. snd (upload_all e images) = Value urls"
proof -
  assume "\<exists>(k, img) \<in> set images. upload_error e (filename img) \<noteq> None"
  then obtain k img m where "(k, img) \<in> set images" "upload_error e (filename img) = Some m"
    by auto
  then have "(upload_settled e (filename img), ''Storage upload failed: '' @ m)
               \<in> set (rejections e images)"
    unfolding rejections_mem [OF assms] by blast
  then obtain r rs where rr: "rejections e images = r # rs" by (cases "rejections e images") auto
  have "earliest r rs \<in> set (rejections e images)" unfolding rr by (rule earliest_mem)
  then obtain k' img' m' where "(k', img') \<in> set images"
    "upload_error e (filename img') = Some m'"
    "earliest r rs = (upload_settled e (filename img'), ''Storage upload failed: '' @ m')"
    unfolding rejections_mem [OF assms] by auto
  then show "\<exists>k img m. (k, img) \<in> set images \<and> upload_error e (filename img) = Some m
             \<and> snd (upload_all e images) = Throw (''Storage upload failed: '' @ m)"
    by (auto simp: upload_all_def rr)
next
  assume none: "\<not> (\<exists>(k, img) \<in> set images. upload_error e (filename img) \<noteq> None)"
  have "rejections e images = []"
  proof (cases "rejections e images")
    case (Cons x xs)
    then have "x \<in> set (rejections e images)" by simp
    then show ?thesis using none unfolding rejections_mem [OF assms] by auto
  qed simp
  then show "\<exists>urls. snd (upload_all e images) = Value urls"
    by (simp add: upload_all_def)
qed

lemma upload_all_not_Return: "snd (upload_all e images) \<noteq> Return r"
  by (simp add: upload_all_def split: list.splits)

lemma deliver_shape:
  assumes "deliver e p (metadata, res) = (evs, out)"
  shows "out \<noteq> Return r"
    and "out = Value r \<Longrightarrow>
           (\<exists>d m. json r = SuccessResponse d m) \<and> status r = 200
           \<and> (\<exists>urls. evs = fst (upload_all e (processedImages res))
                 @ [RecordWritten (job_characterId p) urls (originalAspectRatio res),
                    Cleanup (job_characterId p) (cleanupOldAspectRatioFiles e (job_characterId p))])"
    and "out = Throw m \<Longrightarrow> evs = fst (upload_all e (processedImages res))"
proof -
  obtain uevs uout where u: "upload_all e (processedImages res) = (uevs, uout)"
    by (cases "upload_all e (processedImages res)")
  have nr: "uout \<noteq> Return r" for r using upload_all_not_Return [of e "processedImages res" r] u by simp
  show "out \<noteq> Return r"
    using assms nr
    by (auto simp: deliver_def andThen_def u updateCharacterAspectRatios_def
        split: outcome.splits if_splits option.splits)
  show "(\<exists>d m. json r = SuccessResponse d m) \<and> status r = 200
           \<and> (\<exists>urls. evs = fst (upload_all e (processedImages res))
                 @ [RecordWritten (job_characterId p) urls (originalAspectRatio res),
                    Cleanup (job_characterId p) (cleanupOldAspectRatioFiles e (job_characterId p))])" if "out = Value r"
    using assms that nr
    by (auto simp: deliver_def andThen_def u updateCharacterAspectRatios_def
          createSuccessResponse_def
        split: outcome.splits if_splits option.splits)
  show "evs = fst (upload_all e (processedImages res))" if "out = Throw m"
    using assms that nr
    by (auto simp: deliver_def andThen_def u updateCharacterAspectRatios_def
        split: outcome.splits if_splits option.splits)
qed

section \<open>Requests that are admitted\<close>

lemma example_verified:
  "verifyWebhookSignature (Some example_body) (Some example_signature) (Some ''whsec'')"
  unfolding example_signature_generated
  using verify_generated [OF example_body_nonempty, of "''whsec''" example_body "''whsec''"]
  by simp

lemma admit_example:
  assumes "WEBHOOK_SECRET e = Some ''whsec''" and "JSON_parse e = example_parse"
  shows "admit e example_request = Inr example_job"
proof -
  have h: "validateWebhookHeaders example_request = []"
    by (simp add: validateWebhookHeaders_def example_request_def falsy_def example_signature_def)
  have b: "rawBody example_request = Some example_body"
    by (simp add: rawBody_def example_request_def)
  have s: "signature_header example_request = Some example_signature"
    by (simp add: example_request_def)
  have p: "parseWebhookPayload example_parse example_body = Inr example_job"
    using example_body_nonempty
    by (simp add: parseWebhookPayload_def example_parse_def example_job_def)
  show ?thesis
    by (simp add: admit_def h b s p assms falsy_def example_verified)
qed

lemma handler_job:
  assumes "http_method req = ''POST''" and "admit e req = Inr p"
  shows "andThen (acquire e p) (deliver e p) = (evs, Value r) \<Longrightarrow> handler e req = (evs, r)"
    and "andThen (acquire e p) (deliver e p) = (evs, Return r) \<Longrightarrow> handler e req = (evs, r)"
    and "andThen (acquire e p) (deliver e p) = (evs, Throw message) \<Longrightarrow>
           handler e req =
             (evs
              @ concat (map snd (filter (\<lambda>u. fst u < write_latency e) (uploads_in_flight e p)))
              @ fst (updateAspectRatioStatus e (job_characterId p) ''failed'' (Some message))
              @ concat (map snd (filter (\<lambda>u. write_latency e \<le> fst u) (uploads_in_flight e p))),
              \<lparr>status = status_for message,
               json = ErrorResponse (''Processing failed: '' @ message) (status_for message)\<rparr>)"
  using assms by (simp_all add: handler_def createErrorResponse_def)

lemma in_flight_acquired:
  "acquire e p = (evs, Value (metadata, res)) \<Longrightarrow>
     uploads_in_flight e p = in_flight e (processedImages res)"
  by (simp add: uploads_in_flight_def)


lemma late_events:
  assumes "ev \<in> set (concat (map snd (filter P (uploads_in_flight e p))))"
  shows "\<exists>f. ev = FileStored f"
proof (cases "acquire e p")
  case (Pair evs out)
  show ?thesis
  proof (cases out)
    case (Value a)
    obtain md res where "a = (md, res)" by (cases a)
    with Pair Value have "uploads_in_flight e p = in_flight e (processedImages res)"
      by (simp add: uploads_in_flight_def)
    with assms in_flight_events [of ev P e "processedImages res"] show ?thesis by auto
  next
    case (Throw m)
    with Pair assms show ?thesis by (simp add: uploads_in_flight_def)
  next
    case (Return r)
    with Pair assms show ?thesis by (simp add: uploads_in_flight_def)
  qed
qed






lemma admit_Inl: "admit e req = Inl r \<Longrightarrow> \<exists>msg code. json r = ErrorResponse msg code"
  by (auto simp: admit_def Let_def createErrorResponse_def
      split: if_splits option.splits sum.splits)



lemma recorded_completed:
  "recorded (evs @ [RecordWritten cid urls ratio, Cleanup c r]) = Some (''completed'', None)"
  by (induction evs) simp_all

lemma handler_outcomes:
  obtains (silent) "fst (handler e req) = []" "\<forall>d m. json (snd (handler e req)) \<noteq> SuccessResponse d m"
    | (failed) msg code where "json (snd (handler e req)) = ErrorResponse msg code"
        "\<forall>ev \<in> set (fst (handler e req)). (\<exists>c s m. ev = StatusWritten c s m) \<or> (\<exists>f. ev = FileStored f)"
    | (completed) p d m evs urls ratio where "admit e req = Inr p"
        "json (snd (handler e req)) = SuccessResponse d m"
        "fst (handler e req)
           = evs @ [RecordWritten (job_characterId p) urls ratio,
                    Cleanup (job_characterId p) (cleanupOldAspectRatioFiles e (job_characterId p))]"
proof (cases "http_method req = ''POST''")
  case False
  then have "fst (handler e req) = []" "\<forall>d m. json (snd (handler e req)) \<noteq> SuccessResponse d m"
    by (auto simp: handler_def createErrorResponse_def)
  then show ?thesis by (rule silent)
next
  case post: True
  show ?thesis
  proof (cases "admit e req")
    case (Inl r)
    from admit_Inl [OF Inl] post Inl
    have "fst (handler e req) = []" "\<forall>d m. json (snd (handler e req)) \<noteq> SuccessResponse d m"
      by (auto simp: handler_def)
    then show ?thesis by (rule silent)
  next
    case (Inr p)
    obtain evs out where job: "andThen (acquire e p) (deliver e p) = (evs, out)"
      by (cases "andThen (acquire e p) (deliver e p)")
    have uploads: "\<forall>ev \<in> set (fst (upload_all e images)). \<exists>f. ev = FileStored f" for images
      by (auto dest: upload_events)
    show ?thesis
    proof (cases out)
      case (Value r)
      from handler_job(1) [OF post Inr job [unfolded Value]] have h: "handler e req = (evs, r)" .
      from job [unfolded Value] show ?thesis
      proof (cases rule: andThen_cases)
        case (go a evs1 evs2)
        obtain md res where a: "a = (md, res)" by (cases a)
        from deliver_shape(2) [OF go(2) [unfolded a] refl]
        obtain d m urls where "json r = SuccessResponse d m"
          "evs2 = fst (upload_all e (processedImages res))
             @ [RecordWritten (job_characterId p) urls (originalAspectRatio res),
                Cleanup (job_characterId p) (cleanupOldAspectRatioFiles e (job_characterId p))]"
          by blast
        then show ?thesis
          using Inr by (intro completed [of p d m]) (simp_all add: h go(3))
      qed simp_all
    next
      case (Return r)
      from handler_job(2) [OF post Inr job [unfolded Return]] have h: "handler e req = (evs, r)" .
      from job [unfolded Return] show ?thesis
      proof (cases rule: andThen_cases)
        case (return r')
        then have acq: "acquire e p = (evs, Return r)" by simp
        from acquire_shape(2) [OF acq refl] obtain msg code where "json r = ErrorResponse msg code"
          by blast
        moreover from acquire_shape(1) [OF acq]
        have "\<forall>ev \<in> set evs. (\<exists>c s m. ev = StatusWritten c s m) \<or> (\<exists>f. ev = FileStored f)"
          by blast
        ultimately show ?thesis by (intro failed [of msg code]) (simp_all add: h)
      next
        case (go a evs1 evs2)
        obtain md res where "a = (md, res)" by (cases a)
        with go deliver_shape(1) [of e p md res evs2 "Return r" r] show ?thesis by simp
      qed simp
    next
      case (Throw m)
      define before where
        "before = concat (map snd (filter (\<lambda>u. fst u < write_latency e) (uploads_in_flight e p)))"
      define after where
        "after = concat (map snd (filter (\<lambda>u. write_latency e \<le> fst u) (uploads_in_flight e p)))"
      from handler_job(3) [OF post Inr job [unfolded Throw]]
      have h: "handler e req =
                 (evs @ before
                    @ fst (updateAspectRatioStatus e (job_characterId p) ''failed'' (Some m))
                    @ after,
                  \<lparr>status = status_for m,
                   json = ErrorResponse (''Processing failed: '' @ m) (status_for m)\<rparr>)"
        by (simp only: before_def after_def)
      have late: "\<forall>ev \<in> set before \<union> set after. \<exists>f. ev = FileStored f"
        unfolding before_def after_def using late_events [of _ _ e p] by blast
      have last_write: "\<forall>ev \<in> set (fst (updateAspectRatioStatus e (job_characterId p) ''failed'' (Some m))).
                  \<exists>c s m. ev = StatusWritten c s m"
        by (auto simp: updateAspectRatioStatus_def split: option.splits)
      have "\<forall>ev \<in> set evs. (\<exists>c s m. ev = StatusWritten c s m) \<or> (\<exists>f. ev = FileStored f)"
        using job [unfolded Throw]
      proof (cases rule: andThen_cases)
        case (throw msg)
        then have "acquire e p = (evs, Throw m)" by simp
        from acquire_shape(1) [OF this] show ?thesis by blast
      next
        case (go a evs1 evs2)
        obtain md res where a: "a = (md, res)" by (cases a)
        from deliver_shape(3) [OF go(2) [unfolded a] refl]
        have "evs2 = fst (upload_all e (processedImages res))" .
        with uploads have "\<forall>ev \<in> set evs2. \<exists>f. ev = FileStored f" by simp
        moreover from acquire_shape(1) [OF go(1)]
        have "\<forall>ev \<in> set evs1. \<exists>s m. ev = StatusWritten (job_characterId p) s m" .
        ultimately show ?thesis unfolding go(3) by auto
      qed simp
      with last_write late show ?thesis
        by (intro failed [of "''Processing failed: '' @ m" "status_for m"]) (auto simp: h)
    qed
  qed
qed

lemma andThen_map:
  "(map g (fst (andThen m f)), snd (andThen m f))
     = andThen (map g (fst m), snd m) (\<lambda>a. (map g (fst (f a)), snd (f a)))"
  by (cases m; cases "snd m") (simp_all add: andThen_def split: prod.splits)

lemma recorded_map:
  assumes "\<And>c s m. g (StatusWritten c s m) = StatusWritten c s m"
    and "\<And>c u r. g (RecordWritten c u r) = RecordWritten c u r"
    and "\<And>f. g (FileStored f) = FileStored f"
    and "\<And>c r. \<exists>r'. g (Cleanup c r) = Cleanup c r'"
  shows "recorded (map g evs) = recorded evs"
proof (induction evs)
  case Nil
  show ?case by simp
next
  case (Cons ev evs)
  show ?case
  proof (cases ev)
    case (Cleanup c r)
    from assms(4) [of c r] obtain r' where "g (Cleanup c r) = Cleanup c r'" by blast
    then show ?thesis using Cons by (simp add: Cleanup split: option.splits)
  qed (simp_all add: Cons assms split: option.splits)
qed

lemma cleanup_independent:
  fixes e :: env and l x
  defines "e' \<equiv> e\<lparr>list_result := l, remove_error := x\<rparr>"
  defines "g \<equiv> (\<lambda>ev. case ev of Cleanup c r \<Rightarrow> Cleanup c (cleanupOldAspectRatioFiles e' c) | _ \<Rightarrow> ev)"
  shows "handler e' req = (map g (fst (handler e req)), snd (handler e req))"
proof -
  have st: "updateAspectRatioStatus e' = updateAspectRatioStatus e"
    by (simp add: fun_eq_iff updateAspectRatioStatus_def e'_def split: option.splits)
  have up: "uploadImageToStorage e' = uploadImageToStorage e"
    by (simp add: fun_eq_iff uploadImageToStorage_def e'_def split: option.splits)
  have ws: "WEBHOOK_SECRET e' = WEBHOOK_SECRET e" and jp: "JSON_parse e' = JSON_parse e"
    by (simp_all add: e'_def)
  have ad: "admit e' = admit e"
    unfolding fun_eq_iff admit_def ws jp by simp
  have gc: "getCharacterById e' = getCharacterById e"
    by (simp add: fun_eq_iff getCharacterById_def e'_def split: option.splits)
  have dl: "downloadImage e' = downloadImage e"
    by (simp add: fun_eq_iff downloadImage_def e'_def split: sum.splits)
  have nw: "now e' = now e" by (simp add: e'_def)
  have ac: "acquire e' = acquire e"
    unfolding fun_eq_iff acquire_def st gc dl nw by simp
  have pu: "public_url e' = public_url e" and us: "upload_settled e' = upload_settled e"
    by (simp_all add: e'_def)
  have ua: "upload_all e' = upload_all e"
    unfolding fun_eq_iff upload_all_def rejections_def settled_uploads_def up pu us by simp
  have uf: "uploads_in_flight e' = uploads_in_flight e"
    unfolding fun_eq_iff uploads_in_flight_def ac in_flight_def rejections_def
      settled_uploads_def up us
    by simp
  have wl: "write_latency e' = write_latency e" by (simp add: e'_def)
  have ur: "updateCharacterAspectRatios e' = updateCharacterAspectRatios e"
    by (simp add: fun_eq_iff updateCharacterAspectRatios_def e'_def split: option.splits)
  have keep: "map g evs = evs"
    if "\<forall>ev \<in> set evs. (\<exists>c s m. ev = StatusWritten c s m) \<or> (\<exists>f. ev = FileStored f)" for evs
    using that by (induction evs) (auto simp: g_def)
  have gst: "map g (fst (updateAspectRatioStatus e c s m)) = fst (updateAspectRatioStatus e c s m)"
    for c s m
    by (rule keep) (auto simp: updateAspectRatioStatus_def split: option.splits)
  have gac: "map g (fst (acquire e p)) = fst (acquire e p)" for p
  proof (rule keep)
    obtain evs out where a: "acquire e p = (evs, out)" by (cases "acquire e p")
    from acquire_shape(1) [OF a]
    show "\<forall>ev \<in> set (fst (acquire e p)).
            (\<exists>c s m. ev = StatusWritten c s m) \<or> (\<exists>f. ev = FileStored f)"
      by (auto simp: a)
  qed
  have gup: "map g (fst (upload_all e images)) = fst (upload_all e images)" for images
    by (rule keep) (auto dest: upload_events)
  have glate: "map g (concat (map snd (filter P (uploads_in_flight e p))))
                 = concat (map snd (filter P (uploads_in_flight e p)))" for P p
    by (rule keep) (use late_events [of _ P e p] in blast)
  have de: "deliver e' p a = (map g (fst (deliver e p a)), snd (deliver e p a))" for p a
  proof -
    obtain md res where a: "a = (md, res)" by (cases a)
    obtain uevs uout where u: "upload_all e (processedImages res) = (uevs, uout)"
      by (cases "upload_all e (processedImages res)")
    from gup [of "processedImages res"] have gu: "map g uevs = uevs" by (simp add: u)
    have gr: "g (RecordWritten c us r) = RecordWritten c us r" for c us r by (simp add: g_def)
    have gcl: "g (Cleanup c r) = Cleanup c (cleanupOldAspectRatioFiles e' c)" for c r
      by (simp add: g_def)
    show ?thesis
      by (cases uout)
         (auto simp: a deliver_def andThen_def ua ur u gu gr gcl updateCharacterAspectRatios_def
            split: option.splits)
  qed
  define J where "J = (\<lambda>p. andThen (acquire e p) (deliver e p))"
  have job: "andThen (acquire e' p) (deliver e' p) = (map g (fst (J p)), snd (J p))" for p
  proof -
    have "(map g (fst (J p)), snd (J p))
            = andThen (map g (fst (acquire e p)), snd (acquire e p))
                (\<lambda>a. (map g (fst (deliver e p a)), snd (deliver e p a)))"
      unfolding J_def by (rule andThen_map)
    also have "\<dots> = andThen (acquire e p) (deliver e' p)"
      unfolding gac de [symmetric] by simp
    finally show ?thesis by (simp add: ac)
  qed
  show ?thesis
  proof (cases "http_method req = ''POST''")
    case False
    then show ?thesis by (simp add: handler_def)
  next
    case post: True
    show ?thesis
    proof (cases "admit e req")
      case (Inl r)
      then show ?thesis using post by (simp add: handler_def ad)
    next
      case (Inr p)
      obtain evs out where j: "J p = (evs, out)" by (cases "J p")
      have j': "andThen (acquire e' p) (deliver e' p) = (map g evs, out)"
        by (simp add: job j)
      show ?thesis
        using post Inr gst
        by (cases out) (simp_all add: handler_def ad j' j [unfolded J_def] st uf wl glate)
    qed
  qed
qed

section \<open>Example requests\<close>

lemma valid_hd: "validateImageBuffer hd_buffer = Inr (''jpeg'', 2)"
  by (simp add: validateImageBuffer_def hd_buffer_def signatures_def Let_def)

lemma metadata_hd: "getImageMetadata hd_buffer = ([], Value \<lparr>width = 1920, height = 1080\<rparr>)"
  by (simp add: getImageMetadata_def sharp_metadata_def hd_buffer_def)

lemma example_filename:
  "variant_filename ''c1'' k 1700000000000
     = ''characters/c1/aspect-ratios/'' @ k @ ''-1700000000000.jpg''"
  by (simp add: variant_filename_def string_of_nat_numeral string_of_nat_small)

lemma acquire_example:
  assumes "supabase_configured e" and "update_status_error e ''c1'' ''processing'' None = None"
    and "select_error e ''c1'' = None"
    and "fetch_result e ''https://x.io/a.jpg'' 30000 = Inr hd_buffer"
    and "now e = 1700000000000"
  shows "acquire e example_job =
           ([StatusWritten ''c1'' ''processing'' None],
            Value (\<lparr>width = 1920, height = 1080\<rparr>,
                   \<lparr>originalAspectRatio = ''16:9'',
                    processedImages = example_variants\<rparr>))"
proof -
  have st: "updateAspectRatioStatus e ''c1'' ''processing'' None
              = ([StatusWritten ''c1'' ''processing'' None], Value ())"
    using status_accepted [OF assms(1,2)] by (simp add: falsy_def)
  have gc: "getCharacterById e ''c1'' = ([], Value ())"
    by (simp add: getCharacterById_def assms)
  have dl: "downloadImage e ''https://x.io/a.jpg'' 30000 = ([], Value hd_buffer)"
    by (simp add: downloadImage_def assms)
  show ?thesis
    by (simp add: acquire_def andThen_def example_job_def st gc dl valid_hd metadata_hd run_hd
          assms(5) example_filename example_variants_def)
qed

lemma example_env_fields:
  "supabase_configured example_env" "update_status_error example_env c s m = None"
  "select_error example_env c = None" "fetch_result example_env u ms = Inr hd_buffer"
  "now example_env = 1700000000000" "WEBHOOK_SECRET example_env = Some ''whsec''"
  "JSON_parse example_env = example_parse" "upload_error example_env f = None"
  "update_record_error example_env c = None"
  "public_url example_env f = ''https://store.example/'' @ f"
  "upload_settled example_env f = 0" "write_latency example_env = 0"
  by (simp_all add: example_env_def)

lemma cleanup_example: "cleanupOldAspectRatioFiles example_env c = ([], [])"
  by (simp add: cleanupOldAspectRatioFiles_def example_env_def)

lemma run_example:
  "handler example_env example_request =
     ([StatusWritten ''c1'' ''processing'' None,
       FileStored ''characters/c1/aspect-ratios/1x1-1700000000000.jpg'',
       FileStored ''characters/c1/aspect-ratios/16x9-1700000000000.jpg'',
       FileStored ''characters/c1/aspect-ratios/9x16-1700000000000.jpg'',
       RecordWritten ''c1''
         [(''1x1'', ''https://store.example/characters/c1/aspect-ratios/1x1-1700000000000.jpg''),
          (''16x9'', ''https://store.example/characters/c1/aspect-ratios/16x9-1700000000000.jpg''),
          (''9x16'', ''https://store.example/characters/c1/aspect-ratios/9x16-1700000000000.jpg'')]
         ''16:9'',
       Cleanup ''c1'' ([], [])],
      \<lparr>status = 200,
       json = SuccessResponse
         \<lparr>data_characterId = ''c1'', data_originalAspectRatio = ''16:9'',
          data_aspectRatioUrls =
            [(''1x1'', ''https://store.example/characters/c1/aspect-ratios/1x1-1700000000000.jpg''),
             (''16x9'', ''https://store.example/characters/c1/aspect-ratios/16x9-1700000000000.jpg''),
             (''9x16'', ''https://store.example/characters/c1/aspect-ratios/9x16-1700000000000.jpg'')],
          data_originalDimensions = \<lparr>width = 1920, height = 1080\<rparr>,
          data_processedCount = 3\<rparr>
         ''Aspect ratios processed successfully''\<rparr>)"
proof -
  have adm: "admit example_env example_request = Inr example_job"
    by (rule admit_example) (simp_all add: example_env_fields)
  have acq: "acquire example_env example_job =
               ([StatusWritten ''c1'' ''processing'' None],
                Value (\<lparr>width = 1920, height = 1080\<rparr>,
                       \<lparr>originalAspectRatio = ''16:9'', processedImages = example_variants\<rparr>))"
    by (rule acquire_example) (simp_all add: example_env_fields)
  have post: "http_method example_request = ''POST''" by (simp add: example_request_def)
  have cid: "job_characterId example_job = ''c1''" by (simp add: example_job_def)
  show ?thesis
    by (rule handler_job(1) [OF post adm])
       (simp add: andThen_def acq deliver_def upload_all_def rejections_def
          uploadImageToStorage_def updateCharacterAspectRatios_def example_env_fields
          cleanup_example cid createSuccessResponse_def List.map_filter_def
          example_variants_def settled_uploads_def)
qed

lemma run_missing_character:
  "handler missing_character_env example_request =
     ([StatusWritten ''c1'' ''processing'' None,
       StatusWritten ''c1'' ''failed'' (Some ''Character not found'')],
      \<lparr>status = 404, json = ErrorResponse ''Character not found'' 400\<rparr>)"
proof -
  have adm: "admit missing_character_env example_request = Inr example_job"
    by (rule admit_example) (simp_all add: missing_character_env_def example_env_fields)
  have post: "http_method example_request = ''POST''" by (simp add: example_request_def)
  have acq: "acquire missing_character_env example_job =
               ([StatusWritten ''c1'' ''processing'' None,
                 StatusWritten ''c1'' ''failed'' (Some ''Character not found'')],
                Return \<lparr>status = 404, json = ErrorResponse ''Character not found'' 400\<rparr>)"
    by (simp add: acquire_def andThen_def updateAspectRatioStatus_def getCharacterById_def
          missing_character_env_def example_env_fields example_job_def falsy_def
          createErrorResponse_def)
  show ?thesis
    by (rule handler_job(2) [OF post adm]) (simp add: andThen_def acq)
qed



lemma uploads_fail:
  assumes "supabase_configured e" and "upload_error e = upload_error upload_fails_env"
    and "upload_settled e = upload_settled upload_fails_env"
  shows "upload_all e example_variants
           = ([FileStored ''characters/c1/aspect-ratios/1x1-1700000000000.jpg''],
              Throw ''Storage upload failed: The resource already exists'')"
    and "in_flight e example_variants
           = [(0, []), (1, [FileStored ''characters/c1/aspect-ratios/9x16-1700000000000.jpg''])]"
  by (simp_all add: upload_all_def in_flight_def rejections_def List.map_filter_def
        uploadImageToStorage_def settled_uploads_def example_variants_def assms
        upload_fails_env_def)

lemma status_for_upload:
  "status_for ''Storage upload failed: The resource already exists'' = 500"
  by (simp add: status_for_def)

lemma run_upload_fails_status_lost:
  "handler upload_fails_status_lost_env example_request =
     ([StatusWritten ''c1'' ''processing'' None,
       FileStored ''characters/c1/aspect-ratios/1x1-1700000000000.jpg'',
       FileStored ''characters/c1/aspect-ratios/9x16-1700000000000.jpg''],
      \<lparr>status = 500,
       json = ErrorResponse
         ''Processing failed: Storage upload failed: The resource already exists'' 500\<rparr>)"
proof -
  have fields: "supabase_configured upload_fails_status_lost_env"
    "upload_error upload_fails_status_lost_env = upload_error upload_fails_env"
    "upload_settled upload_fails_status_lost_env = upload_settled upload_fails_env"
    "write_latency upload_fails_status_lost_env = 0"
    "WEBHOOK_SECRET upload_fails_status_lost_env = Some ''whsec''"
    "JSON_parse upload_fails_status_lost_env = example_parse"
    "update_status_error upload_fails_status_lost_env ''c1'' ''processing'' None = None"
    "select_error upload_fails_status_lost_env ''c1'' = None"
    "fetch_result upload_fails_status_lost_env ''https://x.io/a.jpg'' 30000 = Inr hd_buffer"
    "now upload_fails_status_lost_env = 1700000000000"
    by (simp_all add: upload_fails_status_lost_env_def upload_fails_env_def example_env_fields)
  have adm: "admit upload_fails_status_lost_env example_request = Inr example_job"
    by (rule admit_example) (simp_all add: fields)
  have post: "http_method example_request = ''POST''" by (simp add: example_request_def)
  have acq: "acquire upload_fails_status_lost_env example_job =
               ([StatusWritten ''c1'' ''processing'' None],
                Value (\<lparr>width = 1920, height = 1080\<rparr>,
                       \<lparr>originalAspectRatio = ''16:9'', processedImages = example_variants\<rparr>))"
    by (rule acquire_example) (simp_all add: fields)
  have st: "fst (updateAspectRatioStatus upload_fails_status_lost_env ''c1'' ''failed'' (Some m)) = []"
    for m
    by (simp add: updateAspectRatioStatus_def upload_fails_status_lost_env_def)
  have job: "andThen (acquire upload_fails_status_lost_env example_job)
               (deliver upload_fails_status_lost_env example_job)
               = ([StatusWritten ''c1'' ''processing'' None,
                   FileStored ''characters/c1/aspect-ratios/1x1-1700000000000.jpg''],
                  Throw ''Storage upload failed: The resource already exists'')"
    by (simp add: andThen_def acq deliver_def uploads_fail(1) [OF fields(1-3)])
  have late: "uploads_in_flight upload_fails_status_lost_env example_job
                = [(0, []), (1, [FileStored ''characters/c1/aspect-ratios/9x16-1700000000000.jpg''])]"
    unfolding in_flight_acquired [OF acq] results.select_convs
    by (rule uploads_fail(2) [OF fields(1-3)])
  show ?thesis
    using handler_job(3) [OF post adm job, unfolded late fields(4)]
    by (simp add: st example_job_def status_for_upload)
qed

section \<open>Failures of a job\<close>

text \<open>
  C2, as stated, fails: the write of the status \<open>failed\<close> can itself fail, and the handler
  only logs that. Here the upload of the second variant is rejected and the record store
  refuses every write of \<open>failed\<close>: the response is the error 500 and the recorded status is
  still \<open>processing\<close>, while the two other variants are stored.
\<close>

theorem upload_failure_status_lost_counterexample:
  "handler upload_fails_status_lost_env example_request =
     ([StatusWritten ''c1'' ''processing'' None,
       FileStored ''characters/c1/aspect-ratios/1x1-1700000000000.jpg'',
       FileStored ''characters/c1/aspect-ratios/9x16-1700000000000.jpg''],
      \<lparr>status = 500,
       json = ErrorResponse
         ''Processing failed: Storage upload failed: The resource already exists'' 500\<rparr>)
   \<and> recorded (fst (handler upload_fails_status_lost_env example_request))
       = Some (''processing'', None)"
  by (simp add: run_upload_fails_status_lost)

text \<open>
  C2, amended. Take a request that is admitted and whose image is processed, so that the
  uploads are started, and a record store that accepts the write of the status \<open>failed\<close>.
  If the upload of one of the variants fails, the job ends with the status \<open>failed\<close>, the
  recorded message and the error of the response are \<open>Storage upload failed:\<close> followed by
  the error of a failing upload, the record of the character is never written with the
  URLs, no cleanup runs, and every variant whose upload succeeds is in the bucket, whether
  it is stored before or after the rejection (nothing deletes it).
\<close>

theorem upload_failure_fails_job:
  assumes post: "http_method req = ''POST''" and adm: "admit e req = Inr p"
    and acq: "acquire e p = (evs0, Value (metadata, res))"
    and fail: "\<exists>(k, img) \<in> set (processedImages res). upload_error e (filename img) \<noteq> None"
    and store: "\<forall>m. update_status_error e (job_characterId p) ''failed'' (Some m) = None"
  shows "\<exists>k img m. (k, img) \<in> set (processedImages res) \<and> upload_error e (filename img) = Some m
           \<and> recorded (fst (handler e req))
               = Some (''failed'', Some (''Storage upload failed: '' @ m))
           \<and> json (snd (handler e req))
               = ErrorResponse (''Processing failed: Storage upload failed: '' @ m)
                   (status_for (''Storage upload failed: '' @ m))
           \<and> (\<forall>c u r. RecordWritten c u r \<notin> set (fst (handler e req)))
           \<and> (\<forall>c r. Cleanup c r \<notin> set (fst (handler e req)))
           \<and> (\<forall>(k', img') \<in> set (processedImages res).
                 upload_error e (filename img') = None
                   \<longrightarrow> FileStored (filename img') \<in> set (fst (handler e req)))"
proof -
  from acquire_shape(3) [OF acq refl]
  have conf: "supabase_configured e"
    and evs0: "evs0 = [StatusWritten (job_characterId p) ''processing'' None]" by simp_all
  from upload_all_outcome(1) [OF conf fail]
  obtain k img m where mem: "(k, img) \<in> set (processedImages res)"
    and err: "upload_error e (filename img) = Some m"
    and thr: "snd (upload_all e (processedImages res)) = Throw (''Storage upload failed: '' @ m)"
    by blast
  define uevs where "uevs = fst (upload_all e (processedImages res))"
  define cause where "cause = ''Storage upload failed: '' @ m"
  define before where
    "before = concat (map snd (filter (\<lambda>u. fst u < write_latency e) (uploads_in_flight e p)))"
  define after where
    "after = concat (map snd (filter (\<lambda>u. write_latency e \<le> fst u) (uploads_in_flight e p)))"
  have up: "upload_all e (processedImages res) = (uevs, Throw cause)"
    using thr by (simp add: uevs_def cause_def prod_eq_iff)
  have del: "deliver e p (metadata, res) = (uevs, Throw cause)"
    by (simp add: deliver_def andThen_def up)
  have job: "andThen (acquire e p) (deliver e p) = (evs0 @ uevs, Throw cause)"
    by (simp add: andThen_def acq del)
  have nonempty: "cause \<noteq> []" by (simp add: cause_def)
  have st: "updateAspectRatioStatus e (job_characterId p) ''failed'' (Some cause)
              = ([StatusWritten (job_characterId p) ''failed'' (Some cause)], Value ())"
    using status_accepted [OF conf store [rule_format, of cause]] nonempty
    by (simp add: falsy_def)
  have h: "handler e req =
             ((evs0 @ uevs @ before) @ [StatusWritten (job_characterId p) ''failed'' (Some cause)]
                @ after,
              \<lparr>status = status_for cause,
               json = ErrorResponse (''Processing failed: '' @ cause) (status_for cause)\<rparr>)"
    using handler_job(3) [OF post adm job] by (simp add: st before_def after_def)
  have files: "\<exists>f. ev = FileStored f" if "ev \<in> set uevs \<union> set before \<union> set after" for ev
    using that upload_events [of ev e "processedImages res"]
      late_events [of ev _ e p]
    unfolding uevs_def before_def after_def by blast
  have "recorded (fst (handler e req))
          = recorded ((evs0 @ uevs @ before)
                        @ [StatusWritten (job_characterId p) ''failed'' (Some cause)])"
    unfolding h fst_conv append_assoc [symmetric]
    by (rule recorded_no_status) (use files in blast)
  then have rec: "recorded (fst (handler e req)) = Some (''failed'', Some cause)"
    by (simp only: recorded_append)
  have no_record: "RecordWritten c u r \<notin> set (fst (handler e req))" for c u r
    using files by (auto simp: h evs0)
  have no_cleanup: "Cleanup c r \<notin> set (fst (handler e req))" for c r
    using files by (auto simp: h evs0)
  have kept: "FileStored (filename img') \<in> set (fst (handler e req))"
    if "(k', img') \<in> set (processedImages res)" "upload_error e (filename img') = None"
    for k' img'
  proof -
    from stored_eventually [OF that(1) conf that(2)]
    have "FileStored (filename img') \<in> set uevs
          \<or> FileStored (filename img') \<in> set (concat (map snd (uploads_in_flight e p)))"
      unfolding uevs_def in_flight_acquired [OF acq] .
    moreover have "FileStored (filename img') \<in> set before \<union> set after"
      if "FileStored (filename img') \<in> set (concat (map snd (uploads_in_flight e p)))"
    proof -
      have not: "(\<lambda>u. \<not> fst u < write_latency e) = (\<lambda>u. write_latency e \<le> fst u)"
        by (simp add: fun_eq_iff not_less)
      from split_events [OF that, of "\<lambda>u. fst u < write_latency e"]
      show ?thesis unfolding not before_def after_def by blast
    qed
    ultimately show ?thesis by (auto simp: h)
  qed
  have js: "json (snd (handler e req))
              = ErrorResponse (''Processing failed: Storage upload failed: '' @ m)
                  (status_for (''Storage upload failed: '' @ m))"
    by (simp add: h cause_def)
  show ?thesis
    using mem err rec [unfolded cause_def] js no_record no_cleanup kept by blast
qed

theorem upload_failure_fails_job_witness:
  "recorded (fst (handler upload_fails_env example_request))
     = Some (''failed'', Some ''Storage upload failed: The resource already exists'')
   \<and> json (snd (handler upload_fails_env example_request))
       = ErrorResponse ''Processing failed: Storage upload failed: The resource already exists'' 500
   \<and> FileStored ''characters/c1/aspect-ratios/1x1-1700000000000.jpg''
       \<in> set (fst (handler upload_fails_env example_request))
   \<and> FileStored ''characters/c1/aspect-ratios/9x16-1700000000000.jpg''
       \<in> set (fst (handler upload_fails_env example_request))"
proof -
  have adm: "admit upload_fails_env example_request = Inr example_job"
    by (rule admit_example) (simp_all add: upload_fails_env_def example_env_fields)
  have post: "http_method example_request = ''POST''" by (simp add: example_request_def)
  have acq: "acquire upload_fails_env example_job =
               ([StatusWritten ''c1'' ''processing'' None],
                Value (\<lparr>width = 1920, height = 1080\<rparr>,
                       \<lparr>originalAspectRatio = ''16:9'', processedImages = example_variants\<rparr>))"
    by (rule acquire_example) (simp_all add: upload_fails_env_def example_env_fields)
  have store: "\<forall>m. update_status_error upload_fails_env (job_characterId example_job)
                      ''failed'' (Some m) = None"
    by (simp add: upload_fails_env_def example_env_fields)
  have code: "status_for ''Storage upload failed: The resource already exists'' = 500"
    by (simp add: status_for_def)
  have only: "m = ''The resource already exists''" if "upload_error upload_fails_env f = Some m"
    for f m
    using that by (simp add: upload_fails_env_def example_env_fields split: if_splits)
  have fail: "\<exists>(k, img) \<in> set (processedImages
                   \<lparr>originalAspectRatio = ''16:9'', processedImages = example_variants\<rparr>).
                 upload_error upload_fails_env (filename img) \<noteq> None"
    by (simp add: example_variants_def upload_fails_env_def)
  note job = upload_failure_fails_job [OF post adm acq fail store, unfolded results.select_convs]
  have run: "recorded (fst (handler upload_fails_env example_request))
     = Some (''failed'', Some ''Storage upload failed: The resource already exists'')
   \<and> json (snd (handler upload_fails_env example_request))
       = ErrorResponse ''Processing failed: Storage upload failed: The resource already exists'' 500
   \<and> FileStored ''characters/c1/aspect-ratios/1x1-1700000000000.jpg''
       \<in> set (fst (handler upload_fails_env example_request))
   \<and> FileStored ''characters/c1/aspect-ratios/9x16-1700000000000.jpg''
       \<in> set (fst (handler upload_fails_env example_request))"
    if err: "upload_error upload_fails_env (filename img) = Some m"
      and r: "recorded (fst (handler upload_fails_env example_request))
                = Some (''failed'', Some (''Storage upload failed: '' @ m))"
      and j: "json (snd (handler upload_fails_env example_request))
                = ErrorResponse (''Processing failed: Storage upload failed: '' @ m)
                    (status_for (''Storage upload failed: '' @ m))"
      and kept: "\<forall>(k', img') \<in> set example_variants.
                   upload_error upload_fails_env (filename img') = None
                     \<longrightarrow> FileStored (filename img')
                           \<in> set (fst (handler upload_fails_env example_request))"
    for img m
  proof -
    from only [OF err] have m: "m = ''The resource already exists''" .
    have "FileStored ''characters/c1/aspect-ratios/1x1-1700000000000.jpg''
            \<in> set (fst (handler upload_fails_env example_request))"
      and "FileStored ''characters/c1/aspect-ratios/9x16-1700000000000.jpg''
            \<in> set (fst (handler upload_fails_env example_request))"
      using kept by (simp_all add: upload_fails_env_def example_env_fields example_variants_def)
    then show ?thesis using r j code unfolding m by simp
  qed
  from job show ?thesis by (elim exE conjE) (rule run; assumption)
qed




section \<open>Cleanup\<close>

text \<open>
  C6, as stated, fails: the cleanup is called only on the path of success. Here the
  character is not found: the job ends with the status \<open>failed\<close> and no cleanup runs.
\<close>

theorem failed_job_without_cleanup_counterexample:
  "handler missing_character_env example_request =
     ([StatusWritten ''c1'' ''processing'' None,
       StatusWritten ''c1'' ''failed'' (Some ''Character not found'')],
      \<lparr>status = 404, json = ErrorResponse ''Character not found'' 400\<rparr>)
   \<and> recorded (fst (handler missing_character_env example_request))
       = Some (''failed'', Some ''Character not found'')"
  by (simp add: run_missing_character)

text \<open>
  C6, amended. The cleanup runs exactly in the requests that are answered with success,
  whose recorded status is \<open>completed\<close>; and whatever the listing and the removal of the
  cleanup do, the recorded status and the response of a request are the same.
\<close>

theorem cleanup_only_after_completion:
  "((\<exists>cid r. Cleanup cid r \<in> set (fst (handler e req)))
      \<longleftrightarrow> (\<exists>d m. json (snd (handler e req)) = SuccessResponse d m))
   \<and> ((\<exists>d m. json (snd (handler e req)) = SuccessResponse d m)
        \<longrightarrow> recorded (fst (handler e req)) = Some (''completed'', None))
   \<and> recorded (fst (handler (e\<lparr>list_result := l, remove_error := x\<rparr>) req))
       = recorded (fst (handler e req))
   \<and> snd (handler (e\<lparr>list_result := l, remove_error := x\<rparr>) req) = snd (handler e req)"
proof -
  have "((\<exists>cid r. Cleanup cid r \<in> set (fst (handler e req)))
           \<longleftrightarrow> (\<exists>d m. json (snd (handler e req)) = SuccessResponse d m))
        \<and> ((\<exists>d m. json (snd (handler e req)) = SuccessResponse d m)
             \<longrightarrow> recorded (fst (handler e req)) = Some (''completed'', None))"
  proof (cases rule: handler_outcomes [of e req])
    case silent
    then show ?thesis by simp
  next
    case (failed msg code)
    then show ?thesis by auto
  next
    case (completed p d m evs urls ratio)
    have "Cleanup (job_characterId p) (cleanupOldAspectRatioFiles e (job_characterId p))
            \<in> set (fst (handler e req))"
      unfolding completed(3) by simp
    moreover have "recorded (fst (handler e req)) = Some (''completed'', None)"
      unfolding completed(3) by (rule recorded_completed)
    ultimately show ?thesis using completed(2) by blast
  qed
  moreover have "recorded (fst (handler (e\<lparr>list_result := l, remove_error := x\<rparr>) req))
                   = recorded (fst (handler e req))"
    unfolding cleanup_independent fst_conv by (rule recorded_map) simp_all
  moreover have "snd (handler (e\<lparr>list_result := l, remove_error := x\<rparr>) req)
                   = snd (handler e req)"
    unfolding cleanup_independent by simp
  ultimately show ?thesis by blast
qed

theorem cleanup_only_after_completion_witness:
  "(\<exists>d m. json (snd (handler example_env example_request)) = SuccessResponse d m)
   \<and> (\<exists>cid r. Cleanup cid r \<in> set (fst (handler example_env example_request)))
   \<and> recorded (fst (handler example_env example_request)) = Some (''completed'', None)"
proof -
  have ok: "\<exists>d m. json (snd (handler example_env example_request)) = SuccessResponse d m"
    by (simp add: run_example)
  with cleanup_only_after_completion [of example_env example_request]
  show ?thesis by blast
qed

end
